theory Spec2Isabelle
  imports Main "HOL-Library.Word" "HOL-Library.AList" "HOL-Library.List_Lexorder"
    "HOL-Library.Multiset"
begin

section \<open>JavaScript strings and values\<close>

text \<open>
  The page manager (\<^verbatim>\<open>n1-page-manager.js\<close>, and its near-duplicate with English
  texts) is a Cloudflare Worker: every handler reads or writes a key-value namespace
  \<^verbatim>\<open>KV\<close> and builds a \<^verbatim>\<open>Response\<close>.

  A JavaScript string is a sequence of UTF-16 code units, a \<^verbatim>\<open>Uint8Array\<close> a sequence
  of bytes. String literals of the source are written \<open>js ''...''\<close>.
\<close>

type_synonym jschar = "16 word"
type_synonym jsstring = "jschar list"
type_synonym byte = "8 word"

definition js :: "string \<Rightarrow> jsstring" where
  "js s = map of_char s"

text \<open>The exceptions the handlers can meet; each is thrown by a built-in.\<close>

datatype js_error = TypeError | URIError | SyntaxError | InvalidCharacterError

subsection \<open>Character classes\<close>

definition is_digit :: "jschar \<Rightarrow> bool" where
  "is_digit c = (0x30 \<le> c \<and> c \<le> 0x39)"

definition is_upper :: "jschar \<Rightarrow> bool" where
  "is_upper c = (0x41 \<le> c \<and> c \<le> 0x5A)"

definition is_lower :: "jschar \<Rightarrow> bool" where
  "is_lower c = (0x61 \<le> c \<and> c \<le> 0x7A)"

definition digit_val :: "jschar \<Rightarrow> nat" where
  "digit_val c = unat c - 0x30"

definition hex_val :: "jschar \<Rightarrow> nat option" where
  "hex_val c =
     (if is_digit c then Some (unat c - 0x30)
      else if 0x41 \<le> c \<and> c \<le> 0x46 then Some (unat c - 0x41 + 10)
      else if 0x61 \<le> c \<and> c \<le> 0x66 then Some (unat c - 0x61 + 10)
      else None)"

section \<open>JSON.parse\<close>

text \<open>
  \<^verbatim>\<open>JSON.parse\<close> follows the JSON grammar of ECMA-262: white space is tab, line feed,
  carriage return and space; a string may not hold a raw control character; a number has
  no leading zero; of two members with the same name the later one wins. A number is kept
  as its exact decimal value \<open>m * 10 ^ e\<close>: the one place where the page manager looks at
  a number is its truthiness.
\<close>

datatype json =
    JNull
  | JBool bool
  | JNum int int
  | JStr jsstring
  | JArr "json list"
  | JObj "(jsstring \<times> json) list"

definition is_ws :: "jschar \<Rightarrow> bool" where
  "is_ws c = (c = 0x20 \<or> c = 0x09 \<or> c = 0x0A \<or> c = 0x0D)"

definition skip_ws :: "jsstring \<Rightarrow> jsstring" where
  "skip_ws s = dropWhile is_ws s"

text \<open>The characters of a string literal after its opening quote, up to the closing one.\<close>

fun parse_chars :: "jsstring \<Rightarrow> (jsstring \<times> jsstring) option" where
  "parse_chars [] = None"
| "parse_chars (c # s) =
     (if c = 0x22 then Some ([], s)
      else if c < 0x20 then None
      else if c = 0x5C then
        (case s of
           [] \<Rightarrow> None
         | e # s' \<Rightarrow>
             if e = 0x75 then
               (case s' of
                  h1 # h2 # h3 # h4 # s'' \<Rightarrow>
                    (case (hex_val h1, hex_val h2, hex_val h3, hex_val h4) of
                       (Some a, Some b, Some c', Some d) \<Rightarrow>
                         (case parse_chars s'' of
                            None \<Rightarrow> None
                          | Some (t, r) \<Rightarrow>
                              Some (of_nat (a * 4096 + b * 256 + c' * 16 + d) # t, r))
                     | _ \<Rightarrow> None)
                | _ \<Rightarrow> None)
             else
               (case (if e = 0x22 then Some 0x22
                      else if e = 0x5C then Some 0x5C
                      else if e = 0x2F then Some 0x2F
                      else if e = 0x62 then Some 0x08
                      else if e = 0x66 then Some 0x0C
                      else if e = 0x6E then Some 0x0A
                      else if e = 0x72 then Some 0x0D
                      else if e = 0x74 then Some 0x09
                      else None) of
                  None \<Rightarrow> None
                | Some u \<Rightarrow>
                    (case parse_chars s' of
                       None \<Rightarrow> None
                     | Some (t, r) \<Rightarrow> Some (u # t, r))))
      else (case parse_chars s of None \<Rightarrow> None | Some (t, r) \<Rightarrow> Some (c # t, r)))"

definition digits_val :: "jsstring \<Rightarrow> nat" where
  "digits_val ds = foldl (\<lambda>n c. 10 * n + digit_val c) 0 ds"

text \<open>
  A number: an optional minus, \<open>0\<close> or a non-zero digit followed by digits, an optional
  fraction and an optional exponent. After a leading \<open>0\<close> the integer part is over.
  Each part returns what it read and the rest of the input.
\<close>

definition int_part :: "jsstring \<Rightarrow> (jsstring \<times> jsstring) option" where
  "int_part s =
     (case s of
        [] \<Rightarrow> None
      | c # r \<Rightarrow>
          if c = 0x30 then Some ([c], r)
          else if is_digit c then Some (takeWhile is_digit s, dropWhile is_digit s)
          else None)"

definition frac_part :: "jsstring \<Rightarrow> (jsstring \<times> jsstring) option" where
  "frac_part s =
     (case s of
        [] \<Rightarrow> Some ([], s)
      | c # r \<Rightarrow>
          if c = 0x2E then
            (if takeWhile is_digit r = [] then None
             else Some (takeWhile is_digit r, dropWhile is_digit r))
          else Some ([], s))"

definition exp_sign :: "jsstring \<Rightarrow> bool \<times> jsstring" where
  "exp_sign s =
     (case s of
        [] \<Rightarrow> (False, s)
      | c # r \<Rightarrow>
          if c = 0x2D then (True, r) else if c = 0x2B then (False, r) else (False, s))"

definition exp_part :: "jsstring \<Rightarrow> (int \<times> jsstring) option" where
  "exp_part s =
     (case s of
        [] \<Rightarrow> Some (0, s)
      | c # r \<Rightarrow>
          if c = 0x65 \<or> c = 0x45 then
            (let (negative, r') = exp_sign r
             in if takeWhile is_digit r' = [] then None
                else Some ((if negative then - int (digits_val (takeWhile is_digit r'))
                            else int (digits_val (takeWhile is_digit r'))),
                           dropWhile is_digit r'))
          else Some (0, s))"

definition parse_number :: "jsstring \<Rightarrow> ((int \<times> int) \<times> jsstring) option" where
  "parse_number s =
     (let (negative, s1) =
            (case s of
               [] \<Rightarrow> (False, s)
             | c # r \<Rightarrow> if c = 0x2D then (True, r) else (False, s))
      in case int_part s1 of
           None \<Rightarrow> None
         | Some (ip, s2) \<Rightarrow>
             (case frac_part s2 of
                None \<Rightarrow> None
              | Some (fp, s3) \<Rightarrow>
                  (case exp_part s3 of
                     None \<Rightarrow> None
                   | Some (ex, s4) \<Rightarrow>
                       Some ((if negative then - int (digits_val (ip @ fp))
                              else int (digits_val (ip @ fp)),
                              ex - int (length fp)), s4))))"

text \<open>
  Values, the elements of an array after its opening bracket and the members of an
  object after its opening brace. A value takes at least one character, which is what the
  two tests on the length of the rest say; they are there for the termination proof and
  never fail (\<open>parse_value_shorter\<close>, \<open>parse_elements_unguarded\<close>,
  \<open>parse_members_unguarded\<close>).
\<close>

function parse_value :: "jsstring \<Rightarrow> (json \<times> jsstring) option"
  and parse_elements :: "jsstring \<Rightarrow> (json list \<times> jsstring) option"
  and parse_members :: "jsstring \<Rightarrow> ((jsstring \<times> json) list \<times> jsstring) option"
where
  "parse_value s =
     (case skip_ws s of
        [] \<Rightarrow> None
      | c # r \<Rightarrow>
          if c = 0x22 then
            (case parse_chars r of None \<Rightarrow> None | Some (t, r') \<Rightarrow> Some (JStr t, r'))
          else if c = 0x5B then
            (case skip_ws r of
               [] \<Rightarrow> None
             | d # r' \<Rightarrow>
                 if d = 0x5D then Some (JArr [], r')
                 else (case parse_elements r of
                         None \<Rightarrow> None
                       | Some (vs, r'') \<Rightarrow> Some (JArr vs, r'')))
          else if c = 0x7B then
            (case skip_ws r of
               [] \<Rightarrow> None
             | d # r' \<Rightarrow>
                 if d = 0x7D then Some (JObj [], r')
                 else (case parse_members r of
                         None \<Rightarrow> None
                       | Some (ms, r'') \<Rightarrow> Some (JObj ms, r'')))
          else if take 4 (c # r) = js ''true'' then Some (JBool True, drop 3 r)
          else if take 5 (c # r) = js ''false'' then Some (JBool False, drop 4 r)
          else if take 4 (c # r) = js ''null'' then Some (JNull, drop 3 r)
          else (case parse_number (c # r) of
                  None \<Rightarrow> None
                | Some ((m, e), r') \<Rightarrow> Some (JNum m e, r')))"
| "parse_elements s =
     (case parse_value s of
        None \<Rightarrow> None
      | Some (v, r) \<Rightarrow>
          if length r < length s then
            (case skip_ws r of
               [] \<Rightarrow> None
             | c # r' \<Rightarrow>
                 if c = 0x5D then Some ([v], r')
                 else if c = 0x2C then
                   (case parse_elements r' of
                      None \<Rightarrow> None
                    | Some (vs, r'') \<Rightarrow> Some (v # vs, r''))
                 else None)
          else None)"
| "parse_members s =
     (case skip_ws s of
        [] \<Rightarrow> None
      | q # r0 \<Rightarrow>
          if q = 0x22 then
            (case parse_chars r0 of
               None \<Rightarrow> None
             | Some (k, r1) \<Rightarrow>
                 (case skip_ws r1 of
                    [] \<Rightarrow> None
                  | c # r2 \<Rightarrow>
                      if c = 0x3A then
                        (case parse_value r2 of
                           None \<Rightarrow> None
                         | Some (v, r3) \<Rightarrow>
                             if length r3 < length r2 then
                               (case skip_ws r3 of
                                  [] \<Rightarrow> None
                                | d # r4 \<Rightarrow>
                                    if d = 0x7D then Some ([(k, v)], r4)
                                    else if d = 0x2C then
                                      (case parse_members r4 of
                                         None \<Rightarrow> None
                                       | Some (ms, r5) \<Rightarrow> Some ((k, v) # ms, r5))
                                    else None)
                             else None)
                      else None))
          else None)"
  by pat_completeness auto

lemma length_skip_ws: "length (skip_ws s) \<le> length s"
  by (simp add: skip_ws_def length_dropWhile_le)

lemma skip_ws_Cons_shorter: "skip_ws s = c # r \<Longrightarrow> length r < length s"
  using length_skip_ws [of s] by simp

lemma parse_chars_shorter: "parse_chars s = Some (t, r) \<Longrightarrow> length r < length s"
  by (induction s arbitrary: t r rule: parse_chars.induct)
     (fastforce split: if_splits list.splits option.splits)+

termination parse_value
  by (relation "measure (\<lambda>x. case x of
         Inl s \<Rightarrow> 2 * length s
       | Inr (Inl s) \<Rightarrow> 2 * length s + 1
       | Inr (Inr s) \<Rightarrow> 2 * length s + 1)")
     (auto dest!: skip_ws_Cons_shorter parse_chars_shorter)

declare parse_value.simps [simp del] parse_elements.simps [simp del]
  parse_members.simps [simp del]

definition JSON_parse :: "jsstring \<Rightarrow> js_error + json" where
  "JSON_parse text =
     (case parse_value text of
        None \<Rightarrow> Inl SyntaxError
      | Some (v, r) \<Rightarrow> if skip_ws r = [] then Inr v else Inl SyntaxError)"


subsection \<open>Reading a parsed value\<close>

text \<open>
  A number literal denotes the double nearest to \<open>m * 10 ^ e\<close>. That double is zero, and
  the number falsy, exactly when the decimal value is at most half the least subnormal,
  \<open>2 ^ - 1075\<close> (the tie goes to the even neighbour, zero).
\<close>

definition rounds_to_zero :: "int \<Rightarrow> int \<Rightarrow> bool" where
  "rounds_to_zero m e =
     (if 0 \<le> e then m = 0 else \<bar>m\<bar> * 2 ^ 1075 \<le> 10 ^ nat (- e))"

fun truthy :: "json \<Rightarrow> bool" where
  "truthy JNull = False"
| "truthy (JBool b) = b"
| "truthy (JNum m e) = (\<not> rounds_to_zero m e)"
| "truthy (JStr s) = (s \<noteq> [])"
| "truthy (JArr vs) = True"
| "truthy (JObj ms) = True"

text \<open>
  \<^verbatim>\<open>parsedData.name\<close> for the three names the page manager reads (\<^verbatim>\<open>fileName\<close>,
  \<^verbatim>\<open>mimeType\<close>, \<^verbatim>\<open>content\<close>): \<open>None\<close> is \<^verbatim>\<open>undefined\<close>. Only an object has such a
  property; strings, arrays, numbers and booleans do not, and \<^verbatim>\<open>null\<close> is never asked
  (the source tests \<^verbatim>\<open>parsedData &&\<close> first).
\<close>

fun get_prop :: "json \<Rightarrow> jsstring \<Rightarrow> json option" where
  "get_prop (JObj ms) k = map_of (rev ms) k"
| "get_prop v k = None"

definition truthy_opt :: "json option \<Rightarrow> bool" where
  "truthy_opt v = (case v of None \<Rightarrow> False | Some j \<Rightarrow> truthy j)"

section \<open>The platform\<close>

text \<open>
  Two built-ins depend on floating point formatting and on the collation tables of the
  runtime: the string of a number and \<^verbatim>\<open>String.prototype.localeCompare\<close>. They are
  parameters of the model.
\<close>

record platform =
  Number_toString :: "int \<Rightarrow> int \<Rightarrow> jsstring"
  localeCompare :: "jsstring \<Rightarrow> jsstring \<Rightarrow> int"

text \<open>
  \<^verbatim>\<open>ToString\<close>, as a template literal and \<^verbatim>\<open>encodeURIComponent\<close> apply it. An array
  joins its elements with commas, \<^verbatim>\<open>null\<close> elements giving the empty string. An object
  parsed from JSON answers \<^verbatim>\<open>[object Object]\<close>, unless it has a member named
  \<^verbatim>\<open>toString\<close>: that member is not callable, the inherited \<^verbatim>\<open>valueOf\<close> returns the
  object itself, and the conversion throws a TypeError.
\<close>

fun ToString :: "platform \<Rightarrow> json \<Rightarrow> js_error + jsstring"
  and join_elements :: "platform \<Rightarrow> json list \<Rightarrow> js_error + jsstring"
where
  "ToString P JNull = Inr (js ''null'')"
| "ToString P (JBool b) = Inr (if b then js ''true'' else js ''false'')"
| "ToString P (JNum m e) = Inr (Number_toString P m e)"
| "ToString P (JStr s) = Inr s"
| "ToString P (JArr vs) = join_elements P vs"
| "ToString P (JObj ms) =
     (if js ''toString'' \<in> set (map fst ms) then Inl TypeError
      else Inr (js ''[object Object]''))"
| "join_elements P [] = Inr []"
| "join_elements P (v # vs) =
     (case (if v = JNull then Inr [] else ToString P v) of
        Inl err \<Rightarrow> Inl err
      | Inr s \<Rightarrow>
          if vs = [] then Inr s
          else (case join_elements P vs of
                  Inl err \<Rightarrow> Inl err
                | Inr t \<Rightarrow> Inr (s @ js '','' @ t)))"

definition ToString_opt :: "platform \<Rightarrow> json option \<Rightarrow> js_error + jsstring" where
  "ToString_opt P v = (case v of None \<Rightarrow> Inr (js ''undefined'') | Some j \<Rightarrow> ToString P j)"

section \<open>String built-ins\<close>

text \<open>\<^verbatim>\<open>s.replace(/c/g, rep)\<close> for a single character \<open>c\<close>.\<close>

definition replace_all :: "jschar \<Rightarrow> jsstring \<Rightarrow> jsstring \<Rightarrow> jsstring" where
  "replace_all c rep s = concat (map (\<lambda>x. if x = c then rep else [x]) s)"

definition startsWith :: "jsstring \<Rightarrow> jsstring \<Rightarrow> bool" where
  "startsWith s p = (take (length p) s = p)"

text \<open>
  A regular expression with the flag \<^verbatim>\<open>i\<close> and without \<^verbatim>\<open>u\<close> compares characters
  by their upper case, and never lets a character outside ASCII match one inside: for the
  ASCII patterns of the source this is equality up to the case of ASCII letters.
\<close>

definition to_lower :: "jschar \<Rightarrow> jschar" where
  "to_lower c = (if is_upper c then c + 0x20 else c)"

fun matches_at :: "jsstring \<Rightarrow> jsstring \<Rightarrow> bool" where
  "matches_at [] s = True"
| "matches_at (p # ps) [] = False"
| "matches_at (p # ps) (c # s) = (to_lower p = to_lower c \<and> matches_at ps s)"

fun contains_ci :: "jsstring \<Rightarrow> jsstring \<Rightarrow> bool" where
  "contains_ci p [] = matches_at p []"
| "contains_ci p (c # s) = (matches_at p (c # s) \<or> contains_ci p s)"

text \<open>\<^verbatim>\<open>/<html|<!DOCTYPE|<body|<div|<script|<style/i.test(data)\<close>\<close>

definition markup_test :: "jsstring \<Rightarrow> bool" where
  "markup_test data =
     list_ex (\<lambda>p. contains_ci (js p) data)
       [''<html'', ''<!DOCTYPE'', ''<body'', ''<div'', ''<script'', ''<style'']"

text \<open>
  \<^verbatim>\<open>s.split(sep)\<close> for a separator that is not empty: the pieces between the
  occurrences of \<open>sep\<close>, found from left to right. \<open>acc\<close> is the piece being read,
  reversed.
\<close>

fun split_from :: "jsstring \<Rightarrow> jsstring \<Rightarrow> jsstring \<Rightarrow> jsstring list" where
  "split_from sep acc [] = [rev acc]"
| "split_from sep acc (c # s) =
     (if take (length sep) (c # s) = sep
      then rev acc # split_from sep [] (drop (length sep - 1) s)
      else split_from sep (c # acc) s)"

definition split :: "jsstring \<Rightarrow> jsstring \<Rightarrow> jsstring list" where
  "split s sep = split_from sep [] s"

text \<open>\<^verbatim>\<open>xs[1]\<close>: \<^verbatim>\<open>undefined\<close> when the array has fewer than two elements.\<close>

definition second :: "'a list \<Rightarrow> 'a option" where
  "second xs = (case xs of _ # y # _ \<Rightarrow> Some y | _ \<Rightarrow> None)"


section \<open>Base64: btoa and atob\<close>

text \<open>
  \<^verbatim>\<open>btoa\<close> takes a string of code units below 256 (it throws on any other) and encodes
  them as bytes, three bytes to four characters, padding with \<open>=\<close>.
\<close>

definition b64_alphabet :: jsstring where
  "b64_alphabet = js ''ABCDEFGHIJKLMNOPQRSTUVWXYZabcdefghijklmnopqrstuvwxyz0123456789+/''"

definition b64_char :: "nat \<Rightarrow> jschar" where
  "b64_char n = b64_alphabet ! n"

definition b64_index :: "jschar \<Rightarrow> nat option" where
  "b64_index c =
     (if is_upper c then Some (unat c - 0x41)
      else if is_lower c then Some (unat c - 0x61 + 26)
      else if is_digit c then Some (unat c - 0x30 + 52)
      else if c = 0x2B then Some 62
      else if c = 0x2F then Some 63
      else None)"

fun b64_encode :: "nat list \<Rightarrow> jsstring" where
  "b64_encode (a # b # c # r) =
     [b64_char (a div 4), b64_char ((a mod 4) * 16 + b div 16),
      b64_char ((b mod 16) * 4 + c div 64), b64_char (c mod 64)] @ b64_encode r"
| "b64_encode [a, b] =
     [b64_char (a div 4), b64_char ((a mod 4) * 16 + b div 16),
      b64_char ((b mod 16) * 4), 0x3D]"
| "b64_encode [a] = [b64_char (a div 4), b64_char ((a mod 4) * 16), 0x3D, 0x3D]"
| "b64_encode [] = []"

definition btoa :: "jsstring \<Rightarrow> js_error + jsstring" where
  "btoa s =
     (if list_all (\<lambda>c. c \<le> 0xFF) s then Inr (b64_encode (map unat s))
      else Inl InvalidCharacterError)"

text \<open>
  \<^verbatim>\<open>atob\<close> is the forgiving base64 decoding of the HTML standard: ASCII white space is
  dropped; when the length is then a multiple of four, one or two \<open>=\<close> at the end are
  dropped; a length of one more than a multiple of four and any character outside the
  alphabet are errors; the bits left over after the last whole byte are discarded.
\<close>

definition is_ascii_ws :: "jschar \<Rightarrow> bool" where
  "is_ascii_ws c = (c = 0x09 \<or> c = 0x0A \<or> c = 0x0C \<or> c = 0x0D \<or> c = 0x20)"

definition strip_padding :: "jsstring \<Rightarrow> jsstring" where
  "strip_padding d =
     (case rev d of
        x # y # r \<Rightarrow> if x = 0x3D then (if y = 0x3D then rev r else rev (y # r)) else d
      | [x] \<Rightarrow> if x = 0x3D then [] else d
      | [] \<Rightarrow> d)"

fun b64_decode :: "nat list \<Rightarrow> nat list" where
  "b64_decode (a # b # c # d # r) =
     [a * 4 + b div 16, (b mod 16) * 16 + c div 4, (c mod 4) * 64 + d] @ b64_decode r"
| "b64_decode [a, b, c] = [a * 4 + b div 16, (b mod 16) * 16 + c div 4]"
| "b64_decode [a, b] = [a * 4 + b div 16]"
| "b64_decode [a] = []"
| "b64_decode [] = []"

definition atob :: "jsstring \<Rightarrow> js_error + jsstring" where
  "atob data =
     (let d = filter (\<lambda>c. \<not> is_ascii_ws c) data;
          d' = (if length d mod 4 = 0 then strip_padding d else d)
      in if length d' mod 4 = 1 then Inl InvalidCharacterError
         else (case those (map b64_index d') of
                 None \<Rightarrow> Inl InvalidCharacterError
               | Some ns \<Rightarrow> Inr (map of_nat (b64_decode ns))))"

text \<open>The six-bit groups of a sequence of bytes: what \<open>b64_encode\<close> writes before the padding.\<close>

fun b64_sextets :: "nat list \<Rightarrow> nat list" where
  "b64_sextets (a # b # c # r) =
     [a div 4, (a mod 4) * 16 + b div 16, (b mod 16) * 4 + c div 64, c mod 64] @ b64_sextets r"
| "b64_sextets [a, b] = [a div 4, (a mod 4) * 16 + b div 16, (b mod 16) * 4]"
| "b64_sextets [a] = [a div 4, (a mod 4) * 16]"
| "b64_sextets [] = []"

definition b64_padding :: "nat list \<Rightarrow> jsstring" where
  "b64_padding ns = replicate ((3 - length ns mod 3) mod 3) 0x3D"

section \<open>encodeURIComponent and decodeURIComponent\<close>

definition is_high_surrogate :: "jschar \<Rightarrow> bool" where
  "is_high_surrogate c = (0xD800 \<le> c \<and> c \<le> 0xDBFF)"

definition is_low_surrogate :: "jschar \<Rightarrow> bool" where
  "is_low_surrogate c = (0xDC00 \<le> c \<and> c \<le> 0xDFFF)"

definition pair_code_point :: "jschar \<Rightarrow> jschar \<Rightarrow> nat" where
  "pair_code_point h l = 0x10000 + (unat h - 0xD800) * 0x400 + (unat l - 0xDC00)"

definition utf8_encode :: "nat \<Rightarrow> nat list" where
  "utf8_encode cp =
     (if cp < 0x80 then [cp]
      else if cp < 0x800 then [0xC0 + cp div 64, 0x80 + cp mod 64]
      else if cp < 0x10000 then
        [0xE0 + cp div 4096, 0x80 + cp div 64 mod 64, 0x80 + cp mod 64]
      else [0xF0 + cp div 262144, 0x80 + cp div 4096 mod 64,
            0x80 + cp div 64 mod 64, 0x80 + cp mod 64])"

definition hex_upper :: "nat \<Rightarrow> jschar" where
  "hex_upper n = js ''0123456789ABCDEF'' ! n"

definition hex_lower :: "nat \<Rightarrow> jschar" where
  "hex_lower n = js ''0123456789abcdef'' ! n"

definition percent :: "nat list \<Rightarrow> jsstring" where
  "percent bs = concat (map (\<lambda>b. [0x25, hex_upper (b div 16), hex_upper (b mod 16)]) bs)"

text \<open>The characters \<^verbatim>\<open>encodeURIComponent\<close> leaves alone: letters, digits and \<^verbatim>\<open>-_.!~*'()\<close>.\<close>

definition is_unreserved :: "jschar \<Rightarrow> bool" where
  "is_unreserved c =
     (is_upper c \<or> is_lower c \<or> is_digit c \<or>
      c \<in> set [0x2D, 0x5F, 0x2E, 0x21, 0x7E, 0x2A, 0x27, 0x28, 0x29])"

text \<open>\<open>None\<close> is the URIError thrown at a surrogate without its partner.\<close>

fun encode_uri :: "jsstring \<Rightarrow> jsstring option" where
  "encode_uri [] = Some []"
| "encode_uri (c # s) =
     (if is_unreserved c then map_option ((#) c) (encode_uri s)
      else if is_high_surrogate c then
        (case s of
           [] \<Rightarrow> None
         | d # s' \<Rightarrow>
             if is_low_surrogate d
             then map_option ((@) (percent (utf8_encode (pair_code_point c d)))) (encode_uri s')
             else None)
      else if is_low_surrogate c then None
      else map_option ((@) (percent (utf8_encode (unat c)))) (encode_uri s))"

definition encodeURIComponent :: "jsstring \<Rightarrow> js_error + jsstring" where
  "encodeURIComponent s = (case encode_uri s of None \<Rightarrow> Inl URIError | Some t \<Rightarrow> Inr t)"

definition hex_byte :: "jschar \<Rightarrow> jschar \<Rightarrow> nat option" where
  "hex_byte h l =
     (case (hex_val h, hex_val l) of (Some a, Some b) \<Rightarrow> Some (16 * a + b) | _ \<Rightarrow> None)"

text \<open>The next \<open>n\<close> escapes \<^verbatim>\<open>%XX\<close> at the start of a string, as bytes.\<close>

fun escapes :: "nat \<Rightarrow> jsstring \<Rightarrow> nat list option" where
  "escapes 0 s = Some []"
| "escapes (Suc n) (p # h # l # s) =
     (if p = 0x25 then
        (case hex_byte h l of
           None \<Rightarrow> None
         | Some b \<Rightarrow> map_option ((#) b) (escapes n s))
      else None)"
| "escapes (Suc n) s = None"

text \<open>The number of leading one bits of a byte (five stands for five or more).\<close>

definition leading_ones :: "nat \<Rightarrow> nat" where
  "leading_ones b =
     (if b < 0x80 then 0 else if b < 0xC0 then 1 else if b < 0xE0 then 2
      else if b < 0xF0 then 3 else if b < 0xF8 then 4 else 5)"

definition is_continuation :: "nat \<Rightarrow> bool" where
  "is_continuation b = (0x80 \<le> b \<and> b < 0xC0)"

text \<open>
  The code point of a well-formed UTF-8 sequence of two to four bytes: continuation
  bytes in their range, no overlong form, no surrogate, nothing beyond \<open>0x10FFFF\<close>.
\<close>

definition utf8_decode :: "nat list \<Rightarrow> nat option" where
  "utf8_decode bs =
     (case bs of
        [b0, b1] \<Rightarrow>
          (let cp = (b0 - 0xC0) * 64 + (b1 - 0x80)
           in if is_continuation b1 \<and> 0x80 \<le> cp then Some cp else None)
      | [b0, b1, b2] \<Rightarrow>
          (let cp = (b0 - 0xE0) * 4096 + (b1 - 0x80) * 64 + (b2 - 0x80)
           in if is_continuation b1 \<and> is_continuation b2 \<and> 0x800 \<le> cp \<and>
                 \<not> (0xD800 \<le> cp \<and> cp \<le> 0xDFFF)
              then Some cp else None)
      | [b0, b1, b2, b3] \<Rightarrow>
          (let cp = (b0 - 0xF0) * 262144 + (b1 - 0x80) * 4096 + (b2 - 0x80) * 64 + (b3 - 0x80)
           in if is_continuation b1 \<and> is_continuation b2 \<and> is_continuation b3 \<and>
                 0x10000 \<le> cp \<and> cp \<le> 0x10FFFF
              then Some cp else None)
      | _ \<Rightarrow> None)"

definition utf16_encode :: "nat \<Rightarrow> jsstring" where
  "utf16_encode cp =
     (if cp < 0x10000 then [of_nat cp]
      else [of_nat (0xD800 + (cp - 0x10000) div 0x400),
            of_nat (0xDC00 + (cp - 0x10000) mod 0x400)])"

text \<open>
  \<open>None\<close> is the URIError thrown at a \<open>%\<close> without two hexadecimal digits and at bytes
  that are not well-formed UTF-8. Every other character is copied.
\<close>

fun decode_uri :: "jsstring \<Rightarrow> jsstring option" where
  "decode_uri [] = Some []"
| "decode_uri (c # s) =
     (if c \<noteq> 0x25 then map_option ((#) c) (decode_uri s)
      else
        (case s of
           h # l # r \<Rightarrow>
             (case hex_byte h l of
                None \<Rightarrow> None
              | Some b \<Rightarrow>
                  (let n = leading_ones b
                   in if n = 0 then map_option ((#) (of_nat b)) (decode_uri r)
                      else if n = 1 \<or> 4 < n then None
                      else
                        (case escapes (n - 1) r of
                           None \<Rightarrow> None
                         | Some bs \<Rightarrow>
                             (case utf8_decode (b # bs) of
                                None \<Rightarrow> None
                              | Some cp \<Rightarrow>
                                  map_option ((@) (utf16_encode cp))
                                    (decode_uri (drop (3 * (n - 1)) r))))))
         | _ \<Rightarrow> None))"

definition decodeURIComponent :: "jsstring \<Rightarrow> js_error + jsstring" where
  "decodeURIComponent s = (case decode_uri s of None \<Rightarrow> Inl URIError | Some t \<Rightarrow> Inr t)"

text \<open>
  A string without a surrogate that lacks its partner. The name of a \<^verbatim>\<open>File\<close> that
  \<^verbatim>\<open>request.formData()\<close> builds is such a string.
\<close>

fun well_formed :: "jsstring \<Rightarrow> bool" where
  "well_formed [] = True"
| "well_formed [c] = (\<not> is_high_surrogate c \<and> \<not> is_low_surrogate c)"
| "well_formed (c # d # s) =
     (if is_high_surrogate c then is_low_surrogate d \<and> well_formed s
      else \<not> is_low_surrogate c \<and> well_formed (d # s))"

section \<open>JSON.stringify of strings\<close>

text \<open>
  \<^verbatim>\<open>QuoteJSONString\<close>: the quote, the backslash and the control characters are
  escaped, and so is a surrogate without its partner; a surrogate pair is copied.
\<close>

definition unicode_escape :: "jschar \<Rightarrow> jsstring" where
  "unicode_escape c =
     [0x5C, 0x75, hex_lower (unat c div 4096), hex_lower (unat c div 256 mod 16),
      hex_lower (unat c div 16 mod 16), hex_lower (unat c mod 16)]"

definition quote_one :: "jschar \<Rightarrow> jsstring" where
  "quote_one c =
     (if c = 0x08 then [0x5C, 0x62]
      else if c = 0x09 then [0x5C, 0x74]
      else if c = 0x0A then [0x5C, 0x6E]
      else if c = 0x0C then [0x5C, 0x66]
      else if c = 0x0D then [0x5C, 0x72]
      else if c = 0x22 then [0x5C, 0x22]
      else if c = 0x5C then [0x5C, 0x5C]
      else if c < 0x20 \<or> is_high_surrogate c \<or> is_low_surrogate c then unicode_escape c
      else [c])"

fun quote_chars :: "jsstring \<Rightarrow> jsstring" where
  "quote_chars [] = []"
| "quote_chars [c] = quote_one c"
| "quote_chars (c # d # s) =
     (if is_high_surrogate c \<and> is_low_surrogate d then c # d # quote_chars s
      else quote_one c @ quote_chars (d # s))"

definition QuoteJSONString :: "jsstring \<Rightarrow> jsstring" where
  "QuoteJSONString s = [0x22] @ quote_chars s @ [0x22]"

text \<open>
  \<^verbatim>\<open>JSON.stringify\<close> of an object literal whose values are strings: the members in the
  order of the literal, without white space.
\<close>

definition JSON_stringify :: "(string \<times> jsstring) list \<Rightarrow> jsstring" where
  "JSON_stringify ms =
     js ''{'' @
     concat (map (\<lambda>(i, (k, v)).
                    (if i = 0 then [] else js '','') @
                    QuoteJSONString (js k) @ js '':'' @ QuoteJSONString v)
                 (enumerate 0 ms)) @
     js ''}''"


section \<open>The key-value namespace\<close>

text \<open>
  \<^verbatim>\<open>KV\<close> is the one piece of state. It is modelled as an ideal store: a list of
  pairs with \<^verbatim>\<open>get\<close>, \<^verbatim>\<open>put\<close>, \<^verbatim>\<open>delete\<close> and \<^verbatim>\<open>list\<close> that never fail, and the
  sequence of the calls made so far. The limits of the real service (sizes of keys and
  values, the page size of \<^verbatim>\<open>list\<close>, propagation delay) are outside the model.
\<close>

datatype kv_op = KGet jsstring | KPut jsstring jsstring | KDelete jsstring | KList

record kv_state =
  store :: "(jsstring \<times> jsstring) list"
  trace :: "kv_op list"

definition KV_get :: "jsstring \<Rightarrow> kv_state \<Rightarrow> jsstring option \<times> kv_state" where
  "KV_get key st = (map_of (store st) key, st\<lparr>trace := trace st @ [KGet key]\<rparr>)"

definition KV_put :: "jsstring \<Rightarrow> jsstring \<Rightarrow> kv_state \<Rightarrow> kv_state" where
  "KV_put key val st =
     st\<lparr>store := AList.update key val (store st), trace := trace st @ [KPut key val]\<rparr>"

definition KV_delete :: "jsstring \<Rightarrow> kv_state \<Rightarrow> kv_state" where
  "KV_delete key st =
     st\<lparr>store := AList.delete key (store st), trace := trace st @ [KDelete key]\<rparr>"


section \<open>Responses\<close>

text \<open>
  The two variants of the page manager differ in the wording of their fixed texts and in
  the style sheets of their pages, not in what they compute. A fixed text is a
  \<open>message\<close>; a page built from a template literal is a constructor of \<open>body\<close> whose
  arguments are the strings that fill the holes of the template, in the order in which
  the source evaluates them. The headers of a response are those the source passes to
  the constructor \<^verbatim>\<open>Response\<close>, which is taken to accept every value it is given;
  what the runtime does with a value that is no legal header is outside the model.
\<close>

datatype message =
    Page_not_found
  | Original_page_not_found
  | Internal_Server_Error
  | Save_failed
  | Delete_failed
  | Rename_failed
  | Error_listing_pages

datatype body =
    Empty
  | Message message
  | Text jsstring
  | Bytes "byte list"
  | TextPage jsstring jsstring jsstring
  | ImagePreviewPage jsstring
  | EmptyListPage
  | ListPage "(jsstring \<times> jsstring) list"

record response =
  status :: nat
  headers :: "(jsstring \<times> jsstring) list"
  body :: body

definition html_response :: "body \<Rightarrow> response" where
  "html_response b =
     \<lparr>status = 200, headers = [(js ''Content-Type'', js ''text/html; charset=utf-8'')], body = b\<rparr>"

definition not_found_response :: "message \<Rightarrow> response" where
  "not_found_response m =
     \<lparr>status = 404, headers = [(js ''Content-Type'', js ''text/plain; charset=utf-8'')],
      body = Message m\<rparr>"

definition redirect_response :: "jsstring \<Rightarrow> response" where
  "redirect_response location =
     \<lparr>status = 302, headers = [(js ''Location'', location)], body = Empty\<rparr>"

definition error_response :: "message \<Rightarrow> response" where
  "error_response m = \<lparr>status = 500, headers = [], body = Message m\<rparr>"


section \<open>Serving a page\<close>

text \<open>
  \<^verbatim>\<open>serveImagePreview(imageContent)\<close>: the template literal converts its argument to a
  string; \<open>ImagePreviewPage s\<close> is the page whose \<^verbatim>\<open>img\<close> element has \<^verbatim>\<open>src="s"\<close>.
\<close>

definition serveImagePreview :: "platform \<Rightarrow> json option \<Rightarrow> js_error + response" where
  "serveImagePreview P imageContent =
     (case ToString_opt P imageContent of
        Inl err \<Rightarrow> Inl err
      | Inr s \<Rightarrow> Inr (html_response (ImagePreviewPage s)))"

text \<open>
  \<^verbatim>\<open>serveFileDownload(fileName, mimeType, content)\<close>. Only a string has \<^verbatim>\<open>split\<close>;
  \<^verbatim>\<open>atob\<close> converts its argument to a string, so a missing second piece is decoded as
  the text \<^verbatim>\<open>undefined\<close>. \<open>mimeType\<close> is a string here: \<^verbatim>\<open>servePage\<close> has called
  \<^verbatim>\<open>startsWith\<close> on it.
\<close>

definition serveFileDownload ::
  "platform \<Rightarrow> json option \<Rightarrow> jsstring \<Rightarrow> json option \<Rightarrow> js_error + response" where
  "serveFileDownload P fileName mimeType content =
     (case content of
        Some (JStr c) \<Rightarrow>
          (let base64Content =
                 (case second (split c (js ''base64,'')) of
                    None \<Rightarrow> js ''undefined''
                  | Some b \<Rightarrow> b)
           in case atob base64Content of
                Inl err \<Rightarrow> Inl err
              | Inr binaryData \<Rightarrow>
                  (case ToString_opt P fileName of
                     Inl err \<Rightarrow> Inl err
                   | Inr name \<Rightarrow>
                       (case encodeURIComponent name of
                          Inl err \<Rightarrow> Inl err
                        | Inr encoded \<Rightarrow>
                            Inr \<lparr>status = 200,
                                 headers =
                                   [(js ''Content-Disposition'',
                                     js ''attachment; filename='' @ [0x22] @ encoded @ [0x22]),
                                    (js ''Content-Type'', mimeType)],
                                 body = Bytes (map ucast binaryData)\<rparr>)))
      | _ \<Rightarrow> Inl TypeError)"

text \<open>\<^verbatim>\<open>data.replace(/&/g, '&amp;').replace(/</g, '&lt;').replace(/>/g, '&gt;')\<close>\<close>

definition escapedContent :: "jsstring \<Rightarrow> jsstring" where
  "escapedContent data =
     replace_all 0x3E (js ''&gt;'')
       (replace_all 0x3C (js ''&lt;'')
          (replace_all 0x26 (js ''&amp;'') data))"

text \<open>
  \<^verbatim>\<open>servePage(request, key)\<close>. \<open>TextPage title key escaped\<close> is the page of the
  \<^verbatim>\<open>catch\<close> branch: \<^verbatim>\<open>title\<close> holds \<^verbatim>\<open>decodeURIComponent(key)\<close>, the edit link
  \<^verbatim>\<open>/key/e\<close> and the \<^verbatim>\<open>pre\<close> element the escaped content. A value that is not a
  string has no \<^verbatim>\<open>startsWith\<close>, and calling it throws a TypeError.
\<close>

definition servePage :: "platform \<Rightarrow> jsstring \<Rightarrow> kv_state \<Rightarrow> (js_error + response) \<times> kv_state" where
  "servePage P key st =
     (let (data, st') = KV_get key st
      in (case data of
            None \<Rightarrow> Inr (not_found_response Page_not_found)
          | Some d \<Rightarrow>
              if d = [] then Inr (not_found_response Page_not_found)
              else
                (case JSON_parse d of
                   Inl err \<Rightarrow>
                     if markup_test d then Inr (html_response (Text d))
                     else
                       (case decodeURIComponent key of
                          Inl err' \<Rightarrow> Inl err'
                        | Inr title \<Rightarrow>
                            Inr (html_response (TextPage title key (escapedContent d))))
                 | Inr parsedData \<Rightarrow>
                     if truthy parsedData \<and> truthy_opt (get_prop parsedData (js ''fileName''))
                     then
                       (let fileName = get_prop parsedData (js ''fileName'');
                            mimeType = get_prop parsedData (js ''mimeType'');
                            content = get_prop parsedData (js ''content'')
                        in case mimeType of
                             Some (JStr m) \<Rightarrow>
                               if startsWith m (js ''image/'')
                               then serveImagePreview P content
                               else serveFileDownload P fileName m content
                           | _ \<Rightarrow> Inl TypeError)
                     else Inr (html_response (Text d))),
          st'))"

text \<open>
  \<^verbatim>\<open>handleRequest\<close> calls every handler inside one \<^verbatim>\<open>try\<close>; an exception that leaves a
  handler becomes the answer 500. \<open>GET_page\<close> is \<^verbatim>\<open>handleRequest\<close> on a \<^verbatim>\<open>GET\<close> of
  the path \<^verbatim>\<open>/key\<close>, for a key that is routed to \<^verbatim>\<open>servePage\<close>: every single
  path segment but \<^verbatim>\<open>l\<close> (and, in the variant with the form for new pages, \<^verbatim>\<open>new\<close>
  and \<^verbatim>\<open>create\<close>).
\<close>

definition handleRequest_catch :: "js_error + response \<Rightarrow> response" where
  "handleRequest_catch r =
     (case r of Inl err \<Rightarrow> error_response Internal_Server_Error | Inr resp \<Rightarrow> resp)"

definition GET_page :: "platform \<Rightarrow> jsstring \<Rightarrow> kv_state \<Rightarrow> response \<times> kv_state" where
  "GET_page P key st = (let (r, st') = servePage P key st in (handleRequest_catch r, st'))"

section \<open>Saving, deleting and renaming\<close>

text \<open>
  The form of the edit page: the text area \<^verbatim>\<open>content\<close> and the file input \<^verbatim>\<open>file\<close>.
  \<open>form_file\<close> is \<open>None\<close> when \<^verbatim>\<open>formData.get('file')\<close> is not a \<^verbatim>\<open>File\<close>.
\<close>

record upload =
  file_name :: jsstring
  file_type :: jsstring
  file_bytes :: "byte list"

record form_data =
  form_content :: jsstring
  form_file :: "upload option"

text \<open>
  \<^verbatim>\<open>arrayBufferToBase64(buffer)\<close>: the loop appends \<^verbatim>\<open>String.fromCharCode(bytes[i])\<close>
  for every byte, and \<^verbatim>\<open>btoa\<close> encodes the string.
\<close>

definition arrayBufferToBase64 :: "byte list \<Rightarrow> js_error + jsstring" where
  "arrayBufferToBase64 buffer = btoa (map ucast buffer)"

definition savePage :: "jsstring \<Rightarrow> form_data \<Rightarrow> kv_state \<Rightarrow> response \<times> kv_state" where
  "savePage key form st =
     (case (case form_file form of
              Some f \<Rightarrow>
                if 0 < length (file_bytes f) then
                  (case arrayBufferToBase64 (file_bytes f) of
                     Inl err \<Rightarrow> Inl err
                   | Inr base64 \<Rightarrow>
                       Inr (JSON_stringify
                              [(''fileName'', file_name f),
                               (''mimeType'', file_type f),
                               (''content'',
                                js ''data:'' @ file_type f @ js '';base64,'' @ base64)]))
                else Inr (form_content form)
            | None \<Rightarrow> Inr (form_content form)) of
        Inl err \<Rightarrow> (error_response Save_failed, st)
      | Inr val \<Rightarrow> (redirect_response (js ''/'' @ key), KV_put key val st))"

definition deletePage :: "jsstring \<Rightarrow> kv_state \<Rightarrow> response \<times> kv_state" where
  "deletePage key st = (redirect_response (js ''/l''), KV_delete key st)"

definition renamePage :: "jsstring \<Rightarrow> jsstring \<Rightarrow> kv_state \<Rightarrow> response \<times> kv_state" where
  "renamePage oldKey newKey st =
     (let (data, st') = KV_get oldKey st
      in case data of
           None \<Rightarrow> (not_found_response Original_page_not_found, st')
         | Some d \<Rightarrow>
             if d = [] then (not_found_response Original_page_not_found, st')
             else (redirect_response (js ''/'' @ newKey),
                   KV_delete oldKey (KV_put newKey d st')))"

section \<open>Listing\<close>







section \<open>Examples\<close>

text \<open>
  An instance of the platform for the examples: strings are compared code unit by code
  unit. No example holds a number, so the string of a number is never asked for.
\<close>

definition code_unit_compare :: "jsstring \<Rightarrow> jsstring \<Rightarrow> int" where
  "code_unit_compare a b = (if a < b then - 1 else if b < a then 1 else 0)"

definition example_platform :: platform where
  "example_platform = \<lparr>Number_toString = (\<lambda>m e. []), localeCompare = code_unit_compare\<rparr>"

definition empty_kv :: kv_state where
  "empty_kv = \<lparr>store = [], trace = []\<rparr>"

text \<open>A namespace whose only page, \<^verbatim>\<open>a\<close>, holds the empty string.\<close>

definition blank_page_kv :: kv_state where
  "blank_page_kv = \<lparr>store = [(js ''a'', [])], trace = []\<rparr>"

text \<open>A namespace whose only page, \<^verbatim>\<open>a\<close>, holds the text \<^verbatim>\<open>hi\<close>.\<close>

definition one_page_kv :: kv_state where
  "one_page_kv = \<lparr>store = [(js ''a'', js ''hi'')], trace = []\<rparr>"

text \<open>
  The namespace after the form of the edit page has saved the text
  \<^verbatim>\<open>hello\<close>, a line feed, \<^verbatim>\<open><b>world</b>\<close> under \<^verbatim>\<open>notes\<close>.
\<close>

definition notes_content :: jsstring where
  "notes_content = js ''hello'' @ [0x0A] @ js ''<b>world</b>''"

definition notes_form :: form_data where
  "notes_form = \<lparr>form_content = notes_content, form_file = None\<rparr>"

text \<open>A page under a key that is not a well-formed URI component.\<close>

definition percent_key_kv :: kv_state where
  "percent_key_kv = \<lparr>store = [(js ''%'', js ''hi'')], trace = []\<rparr>"

text \<open>The spec's scenario: a fragment of markup under \<^verbatim>\<open>frag\<close>.\<close>

definition frag_kv :: kv_state where
  "frag_kv = \<lparr>store = [(js ''frag'', js ''<div>hi</div>'')], trace = []\<rparr>"

text \<open>A page of plain text with the three special characters.\<close>

definition plain_kv :: kv_state where
  "plain_kv = \<lparr>store = [(js ''a'', js ''x < y & y > z'')], trace = []\<rparr>"

text \<open>A page whose text is JSON, an array of one string, and no file record.\<close>

definition json_text :: jsstring where
  \<open>json_text = js ''["<b>hi</b>"]''\<close>

definition json_text_kv :: kv_state where
  "json_text_kv = \<lparr>store = [(js ''a'', json_text)], trace = []\<rparr>"



text \<open>
  Two file records as \<^verbatim>\<open>savePage\<close> writes them, for the three bytes 1, 2, 3: an image
  under \<^verbatim>\<open>pic\<close> and a document under \<^verbatim>\<open>doc\<close>.
\<close>

definition png_record_text :: jsstring where
  \<open>png_record_text =
     js ''{"fileName":"p.png","mimeType":"image/png","content":"data:image/png;base64,AQID"}''\<close>

definition pdf_record_text :: jsstring where
  \<open>pdf_record_text =
     js ''{"fileName":"my file.pdf","mimeType":"application/pdf","content":"data:application/pdf;base64,AQID"}''\<close>


text \<open>The answer of \<^verbatim>\<open>serveFileDownload\<close>, given the encoded name, the type and the bytes.\<close>

definition download_response :: "jsstring \<Rightarrow> jsstring \<Rightarrow> byte list \<Rightarrow> response" where
  "download_response encoded mimeType bytes =
     \<lparr>status = 200,
      headers =
        [(js ''Content-Disposition'', js ''attachment; filename='' @ [0x22] @ encoded @ [0x22]),
         (js ''Content-Type'', mimeType)],
      body = Bytes bytes\<rparr>"

text \<open>Forms of the edit page with a file: an image, a document, an empty file, a file without a name.\<close>

definition png_upload_form :: form_data where
  "png_upload_form =
     \<lparr>form_content = [],
      form_file = Some \<lparr>file_name = js ''p.png'', file_type = js ''image/png'',
                        file_bytes = [1, 2, 3]\<rparr>\<rparr>"

definition pdf_upload_form :: form_data where
  "pdf_upload_form =
     \<lparr>form_content = [],
      form_file = Some \<lparr>file_name = js ''my file.pdf'', file_type = js ''application/pdf'',
                        file_bytes = [1, 2, 3]\<rparr>\<rparr>"

definition empty_upload_form :: form_data where
  "empty_upload_form =
     \<lparr>form_content = js ''hi'',
      form_file = Some \<lparr>file_name = js ''e.pdf'', file_type = js ''application/pdf'',
                        file_bytes = []\<rparr>\<rparr>"

definition nameless_upload_form :: form_data where
  "nameless_upload_form =
     \<lparr>form_content = [],
      form_file = Some \<lparr>file_name = [], file_type = js ''application/pdf'',
                        file_bytes = [1, 2, 3]\<rparr>\<rparr>"

definition nameless_record_text :: jsstring where
  \<open>nameless_record_text =
     js ''{"fileName":"","mimeType":"application/pdf","content":"data:application/pdf;base64,AQID"}''\<close>


section \<open>The spec's words\<close>

text \<open>
  The markup heuristic as the spec words it: the value contains one of six substrings,
  the case of ASCII letters ignored.
\<close>

definition markup_triggers :: "string list" where
  "markup_triggers = [''<html'', ''<!DOCTYPE'', ''<body'', ''<div'', ''<script'', ''<style'']"

definition contains_ignoring_case :: "jsstring \<Rightarrow> jsstring \<Rightarrow> bool" where
  "contains_ignoring_case s p =
     (\<exists>i \<in> {0..length s}. map to_lower (take (length p) (drop i s)) = map to_lower p)"

definition looks_like_markup :: "jsstring \<Rightarrow> bool" where
  "looks_like_markup s = (\<exists>p \<in> set markup_triggers. contains_ignoring_case s (js p))"

text \<open>Escaping exactly \<open>&\<close>, \<open><\<close> and \<open>>\<close>: every other character is copied.\<close>

definition html_escape_char :: "jschar \<Rightarrow> jsstring" where
  "html_escape_char c =
     (if c = 0x26 then js ''&amp;''
      else if c = 0x3C then js ''&lt;''
      else if c = 0x3E then js ''&gt;''
      else [c])"

definition html_escape :: "jsstring \<Rightarrow> jsstring" where
  "html_escape s = concat (map html_escape_char s)"

text \<open>
  A file record as the spec words it: the value parses as JSON, the parsed value is an
  object, and its \<^verbatim>\<open>fileName\<close> is not empty, read as: is truthy.
\<close>

definition is_FileRecord :: "jsstring \<Rightarrow> bool" where
  "is_FileRecord v =
     (case JSON_parse v of
        Inr (JObj ms) \<Rightarrow> truthy_opt (map_of (rev ms) (js ''fileName''))
      | _ \<Rightarrow> False)"

text \<open>An answer that serves a file: the image preview or the download.\<close>

definition is_file_view :: "response \<Rightarrow> bool" where
  "is_file_view r =
     (case body r of ImagePreviewPage s \<Rightarrow> True | Bytes bs \<Rightarrow> True | _ \<Rightarrow> False)"


text \<open>The record \<^verbatim>\<open>savePage\<close> stores for an upload.\<close>

definition FileRecord_text :: "upload \<Rightarrow> jsstring" where
  "FileRecord_text f =
     JSON_stringify
       [(''fileName'', file_name f),
        (''mimeType'', file_type f),
        (''content'',
         js ''data:'' @ file_type f @ js '';base64,'' @ b64_encode (map unat (file_bytes f)))]"

section \<open>The parser reads forward\<close>

lemma int_part_shorter: "int_part s = Some (ip, r) \<Longrightarrow> length r < length s"
  by (cases s)
     (auto simp add: int_part_def split: if_splits
       intro: le_imp_less_Suc length_dropWhile_le)

lemma frac_part_shorter: "frac_part s = Some (fp, r) \<Longrightarrow> length r \<le> length s"
  by (cases s)
     (auto simp add: frac_part_def split: if_splits
       intro: le_SucI length_dropWhile_le)

lemma exp_sign_shorter: "exp_sign s = (negative, r) \<Longrightarrow> length r \<le> length s"
  by (cases s) (auto simp add: exp_sign_def split: if_splits)

lemma exp_part_shorter:
  assumes "exp_part s = Some (ex, r)"
  shows "length r \<le> length s"
proof (cases s)
  case Nil
  with assms show ?thesis by (simp add: exp_part_def)
next
  case (Cons c t)
  show ?thesis
  proof (cases "c = 0x65 \<or> c = 0x45")
    case False
    with assms Cons show ?thesis by (auto simp add: exp_part_def)
  next
    case True
    obtain negative t' where sign: "exp_sign t = (negative, t')"
      by (cases "exp_sign t")
    with assms Cons True have "r = dropWhile is_digit t'"
      by (auto simp add: exp_part_def split: if_splits)
    moreover have "length (dropWhile is_digit t') \<le> length t'"
      by (rule length_dropWhile_le)
    moreover have "length t' \<le> length t"
      using sign by (rule exp_sign_shorter)
    ultimately show ?thesis
      using Cons by simp
  qed
qed

lemma parse_number_shorter:
  assumes "parse_number s = Some (x, r)"
  shows "length r < length s"
proof -
  obtain negative s1 where sign:
    "(case s of [] \<Rightarrow> (False, s) | c # t \<Rightarrow> if c = 0x2D then (True, t) else (False, s)) =
      (negative, s1)"
    by (cases "case s of [] \<Rightarrow> (False, s) | c # t \<Rightarrow> if c = 0x2D then (True, t) else (False, s)")
  then have s1: "length s1 \<le> length s"
    by (cases s) (auto split: if_splits)
  from assms sign obtain ip s2 fp s3 ex where
    "int_part s1 = Some (ip, s2)" "frac_part s2 = Some (fp, s3)" "exp_part s3 = Some (ex, r)"
    by (auto simp add: parse_number_def split: option.splits)
  then have "length s2 < length s1" "length s3 \<le> length s2" "length r \<le> length s3"
    by (auto dest: int_part_shorter frac_part_shorter exp_part_shorter)
  with s1 show ?thesis
    by linarith
qed

text \<open>A value takes at least one character: the tests on the length of the rest never fail.\<close>

lemma parse_shorter:
  "(\<forall>v r. parse_value s = Some (v, r) \<longrightarrow> length r < length s)"
  "(\<forall>vs r. parse_elements s = Some (vs, r) \<longrightarrow> length r < length s)"
  "(\<forall>ms r. parse_members s = Some (ms, r) \<longrightarrow> length r < length s)"
proof (induction s rule: parse_value_parse_elements_parse_members.induct)
  case (1 s)
  show ?case
  proof (intro allI impI)
    fix v r
    assume a: "parse_value s = Some (v, r)"
    then obtain c t where t: "skip_ws s = c # t"
      by (subst (asm) parse_value.simps) (auto split: list.splits)
    then have len: "length t < length s"
      by (rule skip_ws_Cons_shorter)
    consider (str) "c = 0x22" | (arr) "c \<noteq> 0x22" "c = 0x5B" | (obj) "c \<noteq> 0x22" "c \<noteq> 0x5B" "c = 0x7B"
      | (lit) "c \<noteq> 0x22" "c \<noteq> 0x5B" "c \<noteq> 0x7B"
      by blast
    then show "length r < length s"
    proof cases
      case str
      with a t have "\<exists>u. parse_chars t = Some (u, r)"
        by (subst (asm) parse_value.simps) (auto split: option.splits)
      then show ?thesis
        using len by (auto dest: parse_chars_shorter)
    next
      case arr
      from a t arr obtain d t' where d: "skip_ws t = d # t'"
        by (subst (asm) parse_value.simps) (auto split: list.splits)
      show ?thesis
      proof (cases "d = 0x5D")
        case True
        with a t arr d have "r = t'"
          by (subst (asm) parse_value.simps) simp
        with skip_ws_Cons_shorter [OF d] len show ?thesis
          by simp
      next
        case False
        with a t arr d have "\<exists>vs. parse_elements t = Some (vs, r)"
          by (subst (asm) parse_value.simps) (auto split: option.splits)
        with "1.IH"(1) [OF t _ arr(2) d False] arr(1) len show ?thesis
          by auto
      qed
    next
      case obj
      from a t obj obtain d t' where d: "skip_ws t = d # t'"
        by (subst (asm) parse_value.simps) (auto split: list.splits)
      show ?thesis
      proof (cases "d = 0x7D")
        case True
        with a t obj d have "r = t'"
          by (subst (asm) parse_value.simps) simp
        with skip_ws_Cons_shorter [OF d] len show ?thesis
          by simp
      next
        case False
        with a t obj d have "\<exists>ms. parse_members t = Some (ms, r)"
          by (subst (asm) parse_value.simps) (auto split: option.splits)
        with "1.IH"(2) [OF t _ _ obj(3) d False] obj(1,2) len show ?thesis
          by auto
      qed
    next
      case lit
      from a t lit have "r = drop 3 t \<or> r = drop 4 t \<or> (\<exists>x. parse_number (c # t) = Some (x, r))"
        by (subst (asm) parse_value.simps) (auto split: if_splits option.splits)
      then show ?thesis
        using len by (auto dest!: parse_number_shorter)
    qed
  qed
next
  case (2 s)
  show ?case
  proof (intro allI impI)
    fix vs r
    assume a: "parse_elements s = Some (vs, r)"
    then obtain v t where v: "parse_value s = Some (v, t)"
      by (subst (asm) parse_elements.simps) (auto split: option.splits)
    with a have len: "length t < length s"
      by (subst (asm) parse_elements.simps) (auto split: if_splits)
    from a v len obtain c t' where c: "skip_ws t = c # t'"
      by (subst (asm) parse_elements.simps) (auto split: list.splits)
    note len' = skip_ws_Cons_shorter [OF c]
    show "length r < length s"
    proof (cases "c = 0x5D")
      case True
      with a v len c have "r = t'"
        by (subst (asm) parse_elements.simps) simp
      with len len' show ?thesis by simp
    next
      case False
      with a v len c have comma: "c = 0x2C" and "\<exists>ws. parse_elements t' = Some (ws, r)"
        by (subst (asm) parse_elements.simps, auto split: if_splits option.splits)+
      with "2.IH"(2) [OF v refl len c False comma] len len' show ?thesis
        by auto
    qed
  qed
next
  case (3 s)
  show ?case
  proof (intro allI impI)
    fix ms r
    assume a: "parse_members s = Some (ms, r)"
    then obtain q t0 where q: "skip_ws s = q # t0"
      by (subst (asm) parse_members.simps) (auto split: list.splits)
    with a have quote: "q = 0x22"
      by (subst (asm) parse_members.simps) (auto split: if_splits)
    from a q quote obtain k t1 where k: "parse_chars t0 = Some (k, t1)"
      by (subst (asm) parse_members.simps) (auto split: option.splits)
    from a q quote k obtain c t2 where c: "skip_ws t1 = c # t2"
      by (subst (asm) parse_members.simps) (auto split: list.splits)
    with a q quote k have colon: "c = 0x3A"
      by (subst (asm) parse_members.simps) (auto split: if_splits)
    from a q quote k c colon obtain v t3 where v: "parse_value t2 = Some (v, t3)"
      by (subst (asm) parse_members.simps) (auto split: option.splits)
    with a q quote k c colon have len3: "length t3 < length t2"
      by (subst (asm) parse_members.simps) (auto split: if_splits)
    from a q quote k c colon v len3 obtain d t4 where d: "skip_ws t3 = d # t4"
      by (subst (asm) parse_members.simps) (auto split: list.splits)
    have chain: "length t4 < length s"
      using skip_ws_Cons_shorter [OF q] parse_chars_shorter [OF k] skip_ws_Cons_shorter [OF c]
        len3 skip_ws_Cons_shorter [OF d]
      by linarith
    show "length r < length s"
    proof (cases "d = 0x7D")
      case True
      with a q quote k c colon v len3 d have "r = t4"
        by (subst (asm) parse_members.simps) simp
      with chain show ?thesis by simp
    next
      case False
      with a q quote k c colon v len3 d
      have comma: "d = 0x2C" and "\<exists>ns. parse_members t4 = Some (ns, r)"
        by (subst (asm) parse_members.simps, auto split: if_splits option.splits)+
      with "3.IH"(2) [OF q quote k refl c colon v refl len3 d False comma] chain show ?thesis
        by auto
    qed
  qed
qed

lemma parse_value_shorter: "parse_value s = Some (v, r) \<Longrightarrow> length r < length s"
  using parse_shorter(1) [of s] by blast

text \<open>So the two functions satisfy the equations without the tests.\<close>

lemma parse_elements_unguarded:
  "parse_elements s =
     (case parse_value s of
        None \<Rightarrow> None
      | Some (v, r) \<Rightarrow>
          (case skip_ws r of
             [] \<Rightarrow> None
           | c # r' \<Rightarrow>
               if c = 0x5D then Some ([v], r')
               else if c = 0x2C then
                 (case parse_elements r' of
                    None \<Rightarrow> None
                  | Some (vs, r'') \<Rightarrow> Some (v # vs, r''))
               else None))"
  by (subst parse_elements.simps)
     (auto split: option.splits dest: parse_value_shorter)

lemma parse_members_unguarded:
  "parse_members s =
     (case skip_ws s of
        [] \<Rightarrow> None
      | q # r0 \<Rightarrow>
          if q = 0x22 then
            (case parse_chars r0 of
               None \<Rightarrow> None
             | Some (k, r1) \<Rightarrow>
                 (case skip_ws r1 of
                    [] \<Rightarrow> None
                  | c # r2 \<Rightarrow>
                      if c = 0x3A then
                        (case parse_value r2 of
                           None \<Rightarrow> None
                         | Some (v, r3) \<Rightarrow>
                             (case skip_ws r3 of
                                [] \<Rightarrow> None
                              | d # r4 \<Rightarrow>
                                  if d = 0x7D then Some ([(k, v)], r4)
                                  else if d = 0x2C then
                                    (case parse_members r4 of
                                       None \<Rightarrow> None
                                     | Some (ms, r5) \<Rightarrow> Some ((k, v) # ms, r5))
                                  else None))
                      else None))
          else None)"
  by (subst parse_members.simps)
     (auto split: option.splits list.splits dest: parse_value_shorter)

section \<open>Renaming\<close>

lemma KV_get_fst: "fst (KV_get key st) = map_of (store st) key"
  by (simp add: KV_get_def)

lemma KV_get_put: "fst (KV_get k (KV_put k' v st)) = (if k = k' then Some v else fst (KV_get k st))"
  by (simp add: KV_get_def KV_put_def update_conv')

lemma KV_get_delete: "fst (KV_get k (KV_delete k' st)) = (if k = k' then None else fst (KV_get k st))"
  by (simp add: KV_get_def KV_delete_def delete_conv')

lemma KV_get_snd: "fst (KV_get k (snd (KV_get k' st))) = fst (KV_get k st)"
  by (simp add: KV_get_def)

lemma renamePage_present:
  assumes "fst (KV_get oldKey st) = Some v" and "v \<noteq> []"
  shows "renamePage oldKey newKey st =
           (redirect_response (js ''/'' @ newKey),
            KV_delete oldKey (KV_put newKey v (snd (KV_get oldKey st))))"
  using assms by (simp add: renamePage_def split_beta)

lemma renamePage_missing:
  assumes "fst (KV_get oldKey st) = None \<or> fst (KV_get oldKey st) = Some []"
  shows "renamePage oldKey newKey st =
           (not_found_response Original_page_not_found, snd (KV_get oldKey st))"
  using assms by (auto simp add: renamePage_def split_beta)

lemma servePage_missing:
  assumes "fst (KV_get key st) = None \<or> fst (KV_get key st) = Some []"
  shows "servePage P key st = (Inr (not_found_response Page_not_found), snd (KV_get key st))"
  using assms by (auto simp add: servePage_def split_beta)

lemma servePage_snd: "snd (servePage P key st) = snd (KV_get key st)"
  by (simp add: servePage_def split_beta)

lemma servePage_same_value:
  assumes "fst (KV_get key st) = fst (KV_get key st')"
  shows "fst (servePage P key st) = fst (servePage P key st')"
  using assms by (simp add: servePage_def split_beta)

lemma GET_page_same_value:
  assumes "fst (KV_get key st) = fst (KV_get key st')"
  shows "fst (GET_page P key st) = fst (GET_page P key st')"
  using servePage_same_value [OF assms, of P] by (simp add: GET_page_def split_beta)

lemma GET_page_missing:
  assumes "fst (KV_get key st) = None \<or> fst (KV_get key st) = Some []"
  shows "fst (GET_page P key st) = not_found_response Page_not_found"
  using servePage_missing [OF assms]
  by (simp add: GET_page_def handleRequest_catch_def)

text \<open>
  C7. When \<open>oldKey\<close> is absent, \<^verbatim>\<open>renamePage\<close> answers 404 and writes nothing: the
  store is the one before, so \<open>newKey\<close> holds what it held, and the only call made on the
  namespace is the read of \<open>oldKey\<close>.
\<close>

theorem renamePage_absent_no_write:
  assumes "fst (KV_get oldKey st) = None"
  shows "fst (renamePage oldKey newKey st) = not_found_response Original_page_not_found \<and>
         status (fst (renamePage oldKey newKey st)) = 404 \<and>
         store (snd (renamePage oldKey newKey st)) = store st \<and>
         fst (KV_get newKey (snd (renamePage oldKey newKey st))) = fst (KV_get newKey st) \<and>
         trace (snd (renamePage oldKey newKey st)) = trace st @ [KGet oldKey]"
proof -
  have "renamePage oldKey newKey st =
          (not_found_response Original_page_not_found, snd (KV_get oldKey st))"
    using assms by (intro renamePage_missing) simp
  then show ?thesis
    by (simp add: KV_get_def not_found_response_def)
qed

theorem renamePage_absent_no_write_witness:
  "fst (KV_get (js ''b'') one_page_kv) = None \<and>
   fst (renamePage (js ''b'') (js ''a'') one_page_kv) =
     not_found_response Original_page_not_found \<and>
   store (snd (renamePage (js ''b'') (js ''a'') one_page_kv)) = store one_page_kv \<and>
   fst (KV_get (js ''a'') (snd (renamePage (js ''b'') (js ''a'') one_page_kv))) =
     Some (js ''hi'')"
proof -
  have absent: "fst (KV_get (js ''b'') one_page_kv) = None"
    by (simp add: KV_get_def one_page_kv_def js_def)
  have "fst (KV_get (js ''a'') one_page_kv) = Some (js ''hi'')"
    by (simp add: KV_get_def one_page_kv_def)
  with absent renamePage_absent_no_write [OF absent, of "js ''a''"] show ?thesis
    by simp
qed




text \<open>
  C10. Renaming a page that holds a non-empty value to its own name deletes it:
  \<^verbatim>\<open>renamePage\<close> reads the key, writes the value back under it and then deletes it, so
  the key is gone and \<^verbatim>\<open>GET\<close> answers 404, while the rename itself redirects to the page.
\<close>

theorem rename_to_itself_deletes:
  assumes "fst (KV_get k st) = Some v" and "v \<noteq> []"
  shows "fst (renamePage k k st) = redirect_response (js ''/'' @ k) \<and>
         trace (snd (renamePage k k st)) = trace st @ [KGet k, KPut k v, KDelete k] \<and>
         fst (KV_get k (snd (renamePage k k st))) = None \<and>
         fst (GET_page P k (snd (renamePage k k st))) = not_found_response Page_not_found"
proof -
  let ?st' = "KV_delete k (KV_put k v (snd (KV_get k st)))"
  have step: "renamePage k k st = (redirect_response (js ''/'' @ k), ?st')"
    by (rule renamePage_present [OF assms])
  have gone: "fst (KV_get k ?st') = None"
    by (simp add: KV_get_delete)
  have "trace ?st' = trace st @ [KGet k, KPut k v, KDelete k]"
    by (simp add: KV_delete_def KV_put_def KV_get_def)
  moreover have "fst (GET_page P k ?st') = not_found_response Page_not_found"
    using gone by (intro GET_page_missing) simp
  ultimately show ?thesis
    using step gone by simp
qed

theorem rename_to_itself_deletes_witness:
  "fst (KV_get (js ''a'') one_page_kv) = Some (js ''hi'') \<and> js ''hi'' \<noteq> [] \<and>
   trace (snd (renamePage (js ''a'') (js ''a'') one_page_kv)) =
     [KGet (js ''a''), KPut (js ''a'') (js ''hi''), KDelete (js ''a'')] \<and>
   fst (KV_get (js ''a'') (snd (renamePage (js ''a'') (js ''a'') one_page_kv))) = None \<and>
   fst (GET_page example_platform (js ''a'') (snd (renamePage (js ''a'') (js ''a'') one_page_kv))) =
     not_found_response Page_not_found"
proof -
  have holds: "fst (KV_get (js ''a'') one_page_kv) = Some (js ''hi'')"
    by (simp add: KV_get_def one_page_kv_def)
  have nonempty: "js ''hi'' \<noteq> []"
    by (simp add: js_def)
  have "trace one_page_kv = []"
    by (simp add: one_page_kv_def)
  with holds nonempty rename_to_itself_deletes [OF holds nonempty, of example_platform]
  show ?thesis by simp
qed

text \<open>
  C6, as the claim states it, fails for the empty value: the page \<^verbatim>\<open>a\<close> holds the empty
  string, renaming it to \<^verbatim>\<open>b\<close> answers 404, nothing is written, and \<^verbatim>\<open>b\<close> does not
  hold the value afterwards.
\<close>

theorem rename_empty_value_counterexample:
  "js ''a'' \<noteq> js ''b'' \<and>
   fst (KV_get (js ''a'') blank_page_kv) = Some [] \<and>
   status (fst (renamePage (js ''a'') (js ''b'') blank_page_kv)) = 404 \<and>
   trace (snd (renamePage (js ''a'') (js ''b'') blank_page_kv)) = [KGet (js ''a'')] \<and>
   fst (KV_get (js ''b'') (snd (renamePage (js ''a'') (js ''b'') blank_page_kv))) = None \<and>
   fst (KV_get (js ''a'') (snd (renamePage (js ''a'') (js ''b'') blank_page_kv))) = Some []"
  by (simp add: renamePage_def KV_get_def blank_page_kv_def not_found_response_def js_def)

text \<open>
  C6, amended. For distinct keys \<open>k1\<close> and \<open>k2\<close>, where \<open>k1\<close> holds a value \<open>v\<close> that is
  not the empty string, \<^verbatim>\<open>renamePage\<close> reads \<open>k1\<close>, writes \<open>v\<close> under \<open>k2\<close> and then
  deletes \<open>k1\<close>. Afterwards \<open>k2\<close> holds \<open>v\<close> and is served as a page saved with \<open>v\<close> under
  \<open>k2\<close> is, \<open>k1\<close> is absent and \<^verbatim>\<open>GET\<close> of \<open>k1\<close> answers 404.
\<close>

theorem rename_moves_value:
  assumes "k1 \<noteq> k2" and "fst (KV_get k1 st) = Some v" and "v \<noteq> []"
  shows "fst (renamePage k1 k2 st) = redirect_response (js ''/'' @ k2) \<and>
         trace (snd (renamePage k1 k2 st)) = trace st @ [KGet k1, KPut k2 v, KDelete k1] \<and>
         fst (KV_get k2 (snd (renamePage k1 k2 st))) = Some v \<and>
         fst (GET_page P k2 (snd (renamePage k1 k2 st))) = fst (GET_page P k2 (KV_put k2 v st)) \<and>
         fst (KV_get k1 (snd (renamePage k1 k2 st))) = None \<and>
         fst (GET_page P k1 (snd (renamePage k1 k2 st))) = not_found_response Page_not_found"
proof -
  let ?st' = "KV_delete k1 (KV_put k2 v (snd (KV_get k1 st)))"
  have step: "renamePage k1 k2 st = (redirect_response (js ''/'' @ k2), ?st')"
    by (rule renamePage_present [OF assms(2,3)])
  have new: "fst (KV_get k2 ?st') = Some v"
    using assms(1) by (simp add: KV_get_delete KV_get_put)
  have old: "fst (KV_get k1 ?st') = None"
    by (simp add: KV_get_delete)
  have "trace ?st' = trace st @ [KGet k1, KPut k2 v, KDelete k1]"
    by (simp add: KV_delete_def KV_put_def KV_get_def)
  moreover have "fst (GET_page P k2 ?st') = fst (GET_page P k2 (KV_put k2 v st))"
    by (rule GET_page_same_value) (simp add: new KV_get_put)
  moreover have "fst (GET_page P k1 ?st') = not_found_response Page_not_found"
    using old by (intro GET_page_missing) simp
  ultimately show ?thesis
    using step new old by simp
qed

theorem rename_moves_value_witness:
  "js ''a'' \<noteq> js ''b'' \<and> fst (KV_get (js ''a'') one_page_kv) = Some (js ''hi'') \<and>
   js ''hi'' \<noteq> [] \<and>
   trace (snd (renamePage (js ''a'') (js ''b'') one_page_kv)) =
     [KGet (js ''a''), KPut (js ''b'') (js ''hi''), KDelete (js ''a'')] \<and>
   fst (KV_get (js ''b'') (snd (renamePage (js ''a'') (js ''b'') one_page_kv))) = Some (js ''hi'') \<and>
   fst (KV_get (js ''a'') (snd (renamePage (js ''a'') (js ''b'') one_page_kv))) = None \<and>
   fst (GET_page example_platform (js ''a'') (snd (renamePage (js ''a'') (js ''b'') one_page_kv))) =
     not_found_response Page_not_found"
proof -
  have distinct: "js ''a'' \<noteq> js ''b''"
    by (simp add: js_def)
  have holds: "fst (KV_get (js ''a'') one_page_kv) = Some (js ''hi'')"
    by (simp add: KV_get_def one_page_kv_def)
  have nonempty: "js ''hi'' \<noteq> []"
    by (simp add: js_def)
  have "trace one_page_kv = []"
    by (simp add: one_page_kv_def)
  with distinct holds nonempty
    rename_moves_value [OF distinct holds nonempty, of example_platform]
  show ?thesis by simp
qed


section \<open>The code against the spec's words\<close>

lemma matches_at_iff:
  "matches_at p t \<longleftrightarrow> map to_lower (take (length p) t) = map to_lower p"
  by (induction p t rule: matches_at.induct) auto

lemma contains_ci_iff: "contains_ci p s \<longleftrightarrow> (\<exists>i\<le>length s. matches_at p (drop i s))"
proof (induction s)
  case Nil
  then show ?case by simp
next
  case (Cons c s)
  have "(\<exists>i\<le>Suc (length s). matches_at p (drop i (c # s))) \<longleftrightarrow>
        matches_at p (c # s) \<or> (\<exists>i\<le>length s. matches_at p (drop i s))"
  proof
    assume "\<exists>i\<le>Suc (length s). matches_at p (drop i (c # s))"
    then obtain i where i: "i \<le> Suc (length s)" "matches_at p (drop i (c # s))"
      by blast
    show "matches_at p (c # s) \<or> (\<exists>i\<le>length s. matches_at p (drop i s))"
    proof (cases i)
      case 0
      with i show ?thesis by simp
    next
      case (Suc k)
      with i have "k \<le> length s \<and> matches_at p (drop k s)" by simp
      then show ?thesis by blast
    qed
  next
    assume "matches_at p (c # s) \<or> (\<exists>i\<le>length s. matches_at p (drop i s))"
    then show "\<exists>i\<le>Suc (length s). matches_at p (drop i (c # s))"
    proof
      assume "matches_at p (c # s)"
      then have "0 \<le> Suc (length s) \<and> matches_at p (drop 0 (c # s))" by simp
      then show ?thesis by blast
    next
      assume "\<exists>i\<le>length s. matches_at p (drop i s)"
      then obtain k where "k \<le> length s" "matches_at p (drop k s)" by blast
      then have "Suc k \<le> Suc (length s) \<and> matches_at p (drop (Suc k) (c # s))" by simp
      then show ?thesis by blast
    qed
  qed
  with Cons show ?case by simp
qed

lemma contains_ci_spec: "contains_ci p s = contains_ignoring_case s p"
  by (simp add: contains_ci_iff contains_ignoring_case_def matches_at_iff Bex_def)

lemma markup_test_spec: "markup_test s = looks_like_markup s"
  by (simp add: markup_test_def looks_like_markup_def markup_triggers_def contains_ci_spec)

lemma escapedContent_Cons: "escapedContent (c # s) = html_escape_char c @ escapedContent s"
  by (simp add: escapedContent_def replace_all_def html_escape_char_def js_def)

lemma escapedContent_spec: "escapedContent s = html_escape s"
proof (induction s)
  case Nil
  show ?case by (simp add: escapedContent_def replace_all_def html_escape_def)
next
  case (Cons c s)
  then show ?case by (simp add: escapedContent_Cons html_escape_def)
qed

lemma JSON_parse_empty: "JSON_parse [] = Inl SyntaxError"
  by (simp add: JSON_parse_def parse_value.simps skip_ws_def)

lemma truthy_opt_get_prop: "truthy_opt (get_prop j k) \<Longrightarrow> truthy j"
  by (cases j) (simp_all add: truthy_opt_def)

lemma is_FileRecord_iff:
  "is_FileRecord v \<longleftrightarrow>
     (\<exists>j. JSON_parse v = Inr j \<and> truthy j \<and> truthy_opt (get_prop j (js ''fileName'')))"
proof (cases "JSON_parse v")
  case (Inl err)
  then show ?thesis by (simp add: is_FileRecord_def)
next
  case (Inr j)
  then show ?thesis
    by (cases j) (simp_all add: is_FileRecord_def truthy_opt_def)
qed

lemma servePage_parse_error:
  assumes "fst (KV_get key st) = Some v" and "v \<noteq> []" and "JSON_parse v = Inl err"
  shows "fst (servePage P key st) =
           (if looks_like_markup v then Inr (html_response (Text v))
            else (case decodeURIComponent key of
                    Inl err' \<Rightarrow> Inl err'
                  | Inr title \<Rightarrow> Inr (html_response (TextPage title key (html_escape v)))))"
  using assms unfolding servePage_def escapedContent_spec markup_test_spec
  by (simp add: split_beta)

lemma servePage_not_file:
  assumes "fst (KV_get key st) = Some v" and "JSON_parse v = Inr j"
    and "\<not> truthy_opt (get_prop j (js ''fileName''))"
  shows "fst (servePage P key st) = Inr (html_response (Text v))"
proof -
  have "v \<noteq> []"
    using assms(2) JSON_parse_empty by auto
  with assms show ?thesis
    by (simp add: servePage_def split_beta)
qed

lemma servePage_file:
  assumes "fst (KV_get key st) = Some v" and "JSON_parse v = Inr j"
    and "truthy_opt (get_prop j (js ''fileName''))"
  shows "fst (servePage P key st) =
           (case get_prop j (js ''mimeType'') of
              Some (JStr m) \<Rightarrow>
                if startsWith m (js ''image/'')
                then serveImagePreview P (get_prop j (js ''content''))
                else serveFileDownload P (get_prop j (js ''fileName'')) m
                       (get_prop j (js ''content''))
            | _ \<Rightarrow> Inl TypeError)"
proof -
  have "v \<noteq> []"
    using assms(2) JSON_parse_empty by auto
  moreover have "truthy j"
    using assms(3) by (rule truthy_opt_get_prop)
  ultimately show ?thesis
    using assms by (simp add: servePage_def split_beta Let_def)
qed

lemma GET_page_Inr:
  "fst (servePage P key st) = Inr r \<Longrightarrow> fst (GET_page P key st) = r"
  by (simp add: GET_page_def handleRequest_catch_def split_beta)

lemma GET_page_Inl:
  "fst (servePage P key st) = Inl err \<Longrightarrow>
   fst (GET_page P key st) = error_response Internal_Server_Error"
  by (simp add: GET_page_def handleRequest_catch_def split_beta)


section \<open>Values that are not JSON\<close>

text \<open>
  C2, as the claim states it, fails in two places. The empty string is a stored value that
  does not parse and matches no trigger, and \<^verbatim>\<open>GET\<close> answers 404 for it. The text
  \<^verbatim>\<open>hi\<close> under the key \<^verbatim>\<open>%\<close> does not parse and matches no trigger either, and
  \<^verbatim>\<open>GET\<close> answers 500: the text page holds \<^verbatim>\<open>decodeURIComponent(key)\<close>, which
  throws.
\<close>

theorem unparsable_value_counterexample:
  "JSON_parse [] = Inl SyntaxError \<and> \<not> looks_like_markup [] \<and>
   fst (GET_page example_platform (js ''a'') blank_page_kv) =
     not_found_response Page_not_found \<and>
   JSON_parse (js ''hi'') = Inl SyntaxError \<and> \<not> looks_like_markup (js ''hi'') \<and>
   fst (GET_page example_platform (js ''%'') percent_key_kv) =
     error_response Internal_Server_Error"
proof -
  have "\<not> markup_test []" and "\<not> markup_test (js ''hi'')"
    by code_simp+
  moreover have "JSON_parse (js ''hi'') = Inl SyntaxError"
    by code_simp
  moreover have "fst (GET_page example_platform (js ''a'') blank_page_kv) =
      not_found_response Page_not_found"
    by code_simp
  moreover have "fst (GET_page example_platform (js ''%'') percent_key_kv) =
      error_response Internal_Server_Error"
    by code_simp
  ultimately show ?thesis
    by (simp add: markup_test_spec JSON_parse_empty)
qed

text \<open>
  C2, amended. For every stored value that is not the empty string and fails to parse
  as JSON, under a key that \<^verbatim>\<open>decodeURIComponent\<close> accepts: \<^verbatim>\<open>GET\<close> returns the value
  as it is, for HTML rendering, if and only if it contains one of the six substrings, the
  case of ASCII letters ignored; otherwise it returns the text page whose \<^verbatim>\<open>pre\<close>
  element holds the value with exactly \<open>&\<close>, \<open><\<close> and \<open>>\<close> escaped and every other
  character, white space and line feeds among them, copied.
\<close>

theorem unparsable_value_rendering:
  assumes "fst (KV_get key st) = Some v" and "v \<noteq> []"
    and "JSON_parse v = Inl err" and "decodeURIComponent key = Inr title"
  shows "fst (GET_page P key st) =
           (if looks_like_markup v then html_response (Text v)
            else html_response (TextPage title key (html_escape v))) \<and>
         (fst (GET_page P key st) = html_response (Text v) \<longleftrightarrow> looks_like_markup v)"
proof -
  have "fst (servePage P key st) =
          Inr (if looks_like_markup v then html_response (Text v)
               else html_response (TextPage title key (html_escape v)))"
    using servePage_parse_error [OF assms(1,2,3), of P] assms(4) by simp
  then have "fst (GET_page P key st) =
          (if looks_like_markup v then html_response (Text v)
           else html_response (TextPage title key (html_escape v)))"
    by (rule GET_page_Inr)
  then show ?thesis
    by (simp add: html_response_def)
qed

theorem unparsable_value_rendering_witness:
  "fst (KV_get (js ''frag'') frag_kv) = Some (js ''<div>hi</div>'') \<and>
   looks_like_markup (js ''<div>hi</div>'') \<and>
   fst (GET_page example_platform (js ''frag'') frag_kv) =
     html_response (Text (js ''<div>hi</div>'')) \<and>
   fst (KV_get (js ''a'') plain_kv) = Some (js ''x < y & y > z'') \<and>
   \<not> looks_like_markup (js ''x < y & y > z'') \<and>
   fst (GET_page example_platform (js ''a'') plain_kv) =
     html_response (TextPage (js ''a'') (js ''a'') (js ''x &lt; y &amp; y &gt; z''))"
proof -
  have f1: "fst (KV_get (js ''frag'') frag_kv) = Some (js ''<div>hi</div>'')"
    by (simp add: KV_get_def frag_kv_def)
  have f2: "js ''<div>hi</div>'' \<noteq> []"
    by (simp add: js_def)
  have f3: "JSON_parse (js ''<div>hi</div>'') = Inl SyntaxError"
    by code_simp
  have f4: "decodeURIComponent (js ''frag'') = Inr (js ''frag'')"
    by code_simp
  have f5: "looks_like_markup (js ''<div>hi</div>'')"
    unfolding markup_test_spec [symmetric] by code_simp
  have p1: "fst (KV_get (js ''a'') plain_kv) = Some (js ''x < y & y > z'')"
    by (simp add: KV_get_def plain_kv_def)
  have p2: "js ''x < y & y > z'' \<noteq> []"
    by (simp add: js_def)
  have p3: "JSON_parse (js ''x < y & y > z'') = Inl SyntaxError"
    by code_simp
  have p4: "decodeURIComponent (js ''a'') = Inr (js ''a'')"
    by code_simp
  have p5: "\<not> looks_like_markup (js ''x < y & y > z'')"
    unfolding markup_test_spec [symmetric] by code_simp
  have p6: "html_escape (js ''x < y & y > z'') = js ''x &lt; y &amp; y &gt; z''"
    by code_simp
  show ?thesis
    using unparsable_value_rendering [OF f1 f2 f3 f4, of example_platform]
      unparsable_value_rendering [OF p1 p2 p3 p4, of example_platform]
      f1 f5 p1 p5 p6
    by simp
qed

section \<open>JSON that is not a file record\<close>

text \<open>
  C3, as the claim states it, fails: the text \<^verbatim>\<open>["<b>hi</b>"]\<close> parses as JSON, has no
  \<^verbatim>\<open>fileName\<close> and matches no trigger, so a plain value like it would be escaped into
  the text page; \<^verbatim>\<open>GET\<close> returns it as it is.
\<close>

theorem json_without_fileName_counterexample:
  "JSON_parse json_text = Inr (JArr [JStr (js ''<b>hi</b>'')]) \<and>
   get_prop (JArr [JStr (js ''<b>hi</b>'')]) (js ''fileName'') = None \<and>
   \<not> looks_like_markup json_text \<and>
   fst (GET_page example_platform (js ''a'') json_text_kv) = html_response (Text json_text) \<and>
   fst (GET_page example_platform (js ''a'') json_text_kv) \<noteq>
     html_response (TextPage (js ''a'') (js ''a'') (html_escape json_text))"
proof -
  have "\<not> markup_test json_text"
    by code_simp
  moreover have "JSON_parse json_text = Inr (JArr [JStr (js ''<b>hi</b>'')])"
    by code_simp
  moreover have "fst (GET_page example_platform (js ''a'') json_text_kv) =
      html_response (Text json_text)"
    by code_simp
  ultimately show ?thesis
    by (simp add: markup_test_spec html_response_def)
qed

text \<open>
  C3, amended. For every stored value that parses as JSON and whose parsed result has no
  \<^verbatim>\<open>fileName\<close>, or a falsy one, \<^verbatim>\<open>GET\<close> returns the raw stored string as it is, for
  HTML rendering: the markup heuristic is not consulted, nothing is escaped and there is
  no \<^verbatim>\<open>pre\<close> element.
\<close>

theorem json_without_fileName_is_raw:
  assumes "fst (KV_get key st) = Some v" and "JSON_parse v = Inr j"
    and "\<not> truthy_opt (get_prop j (js ''fileName''))"
  shows "fst (servePage P key st) = Inr (html_response (Text v)) \<and>
         fst (GET_page P key st) = html_response (Text v)"
proof -
  have "fst (servePage P key st) = Inr (html_response (Text v))"
    by (rule servePage_not_file [OF assms])
  then show ?thesis
    by (simp add: GET_page_Inr)
qed

theorem json_without_fileName_is_raw_witness:
  "fst (KV_get (js ''a'') json_text_kv) = Some json_text \<and>
   JSON_parse json_text = Inr (JArr [JStr (js ''<b>hi</b>'')]) \<and>
   \<not> truthy_opt (get_prop (JArr [JStr (js ''<b>hi</b>'')]) (js ''fileName'')) \<and>
   fst (servePage example_platform (js ''a'') json_text_kv) =
     Inr (html_response (Text json_text))"
proof -
  have h1: "fst (KV_get (js ''a'') json_text_kv) = Some json_text"
    by (simp add: KV_get_def json_text_kv_def)
  have h2: "JSON_parse json_text = Inr (JArr [JStr (js ''<b>hi</b>'')])"
    by code_simp
  have h3: "\<not> truthy_opt (get_prop (JArr [JStr (js ''<b>hi</b>'')]) (js ''fileName''))"
    by (simp add: truthy_opt_def)
  show ?thesis
    using json_without_fileName_is_raw [OF h1 h2 h3, of example_platform] h1 h2 h3
    by simp
qed

section \<open>Saving text and reading it back\<close>

lemma savePage_text:
  assumes "form_file form = None"
  shows "savePage key form st =
           (redirect_response (js ''/'' @ key), KV_put key (form_content form) st)"
  using assms by (simp add: savePage_def)

lemma save_then_get_plain_text:
  assumes "form_file form = None" and "form_content form = v" and "v \<noteq> []"
    and "JSON_parse v = Inl err" and "\<not> looks_like_markup v"
    and "decodeURIComponent key = Inr title"
  shows "fst (GET_page P key (snd (savePage key form st))) =
           html_response (TextPage title key (html_escape v))"
proof -
  have "fst (KV_get key (snd (savePage key form st))) = Some v"
    using assms(1,2) by (simp add: savePage_text KV_get_put)
  from servePage_parse_error [OF this assms(3,4), of P] assms(5,6)
  show ?thesis
    by (simp add: GET_page_Inr)
qed

text \<open>
  C4, as the claim states it, fails: the page shows \<^verbatim>\<open>hello\<close>, the line feed itself
  and \<^verbatim>\<open>&lt;b&gt;world&lt;/b&gt;\<close>. \<^verbatim>\<open>servePage\<close> escapes \<open>&\<close>, \<open><\<close> and \<open>>\<close>;
  it is the edit form that writes a line feed as \<^verbatim>\<open>&#10;\<close>.
\<close>

theorem notes_scenario_counterexample:
  "fst (GET_page example_platform (js ''notes'')
          (snd (savePage (js ''notes'') notes_form empty_kv))) =
     html_response
       (TextPage (js ''notes'') (js ''notes'')
          (js ''hello'' @ [0x0A] @ js ''&lt;b&gt;world&lt;/b&gt;'')) \<and>
   js ''hello'' @ [0x0A] @ js ''&lt;b&gt;world&lt;/b&gt;'' \<noteq>
     js ''hello&#10;&lt;b&gt;world&lt;/b&gt;''"
  by code_simp

text \<open>
  C4, amended. Saving the text \<^verbatim>\<open>hello\<close>, line feed, \<^verbatim>\<open><b>world</b>\<close> under
  \<^verbatim>\<open>notes\<close> stores it verbatim, and \<^verbatim>\<open>GET\<close> of \<^verbatim>\<open>notes\<close> then returns the text page
  whose \<^verbatim>\<open>pre\<close> element holds \<^verbatim>\<open>hello\<close>, the line feed unchanged, and
  \<^verbatim>\<open>&lt;b&gt;world&lt;/b&gt;\<close>: the text matches none of the markup triggers.
\<close>

theorem notes_scenario:
  "fst (KV_get (js ''notes'') (snd (savePage (js ''notes'') notes_form st))) =
     Some notes_content \<and>
   \<not> looks_like_markup notes_content \<and>
   fst (GET_page P (js ''notes'') (snd (savePage (js ''notes'') notes_form st))) =
     html_response
       (TextPage (js ''notes'') (js ''notes'')
          (js ''hello'' @ [0x0A] @ js ''&lt;b&gt;world&lt;/b&gt;''))"
proof -
  have no_file: "form_file notes_form = None"
    and content: "form_content notes_form = notes_content"
    by (simp_all add: notes_form_def)
  have nonempty: "notes_content \<noteq> []"
    by (simp add: notes_content_def js_def)
  have unparsable: "JSON_parse notes_content = Inl SyntaxError"
    by code_simp
  have plain: "\<not> looks_like_markup notes_content"
    unfolding markup_test_spec [symmetric] by code_simp
  have title: "decodeURIComponent (js ''notes'') = Inr (js ''notes'')"
    by code_simp
  have escaped: "html_escape notes_content = js ''hello'' @ [0x0A] @ js ''&lt;b&gt;world&lt;/b&gt;''"
    by code_simp
  have "fst (KV_get (js ''notes'') (snd (savePage (js ''notes'') notes_form st))) =
      Some notes_content"
    using no_file content by (simp add: savePage_text KV_get_put)
  moreover have "fst (GET_page P (js ''notes'') (snd (savePage (js ''notes'') notes_form st))) =
      html_response (TextPage (js ''notes'') (js ''notes'') (html_escape notes_content))"
    by (rule save_then_get_plain_text [OF no_file content nonempty unparsable plain title])
  ultimately show ?thesis
    using plain escaped by simp
qed


section \<open>File records\<close>



lemma serveFileDownload_ok:
  assumes "second (split c (js ''base64,'')) = Some b" and "atob b = Inr binaryData"
    and "ToString_opt P fileName = Inr name" and "encodeURIComponent name = Inr encoded"
  shows "serveFileDownload P fileName m (Some (JStr c)) =
           Inr (download_response encoded m (map ucast binaryData))"
  using assms by (simp add: serveFileDownload_def download_response_def)








section \<open>Listing the pages\<close>















section \<open>Base64 round trip\<close>

lemma b64_index_alphabet: "map b64_index b64_alphabet = map Some [0..<64]"
  by code_simp

lemma b64_index_outside:
  "b64_index 0x3D = None" "b64_index 0x2C = None" "is_ascii_ws c \<Longrightarrow> b64_index c = None"
  by (auto simp add: b64_index_def is_ascii_ws_def is_upper_def is_lower_def is_digit_def)

lemma b64_char_props:
  assumes "n < 64"
  shows "b64_index (b64_char n) = Some n" and "b64_char n \<noteq> 0x3D"
    and "\<not> is_ascii_ws (b64_char n)" and "b64_char n \<noteq> 0x2C"
proof -
  have "length b64_alphabet = 64"
    using arg_cong [OF b64_index_alphabet, of length] by simp
  with assms have "b64_index (b64_char n) = map b64_index b64_alphabet ! n"
    by (simp add: b64_char_def)
  also have "\<dots> = Some n"
    using assms by (simp add: b64_index_alphabet)
  finally show index: "b64_index (b64_char n) = Some n" .
  then show "b64_char n \<noteq> 0x3D" and "\<not> is_ascii_ws (b64_char n)" and "b64_char n \<noteq> 0x2C"
    using b64_index_outside by auto
qed

lemma b64_sextets_bound:
  "list_all (\<lambda>n. n < 256) ns \<Longrightarrow> list_all (\<lambda>n. n < 64) (b64_sextets ns)"
  by (induction ns rule: b64_sextets.induct) auto

lemma b64_decode_sextets:
  "list_all (\<lambda>n. n < 256) ns \<Longrightarrow> b64_decode (b64_sextets ns) = ns"
  by (induction ns rule: b64_sextets.induct) auto

lemma length_b64_sextets: "length (b64_sextets ns) mod 4 \<noteq> 1"
  by (induction ns rule: b64_sextets.induct) auto

lemma b64_encode_split:
  "b64_encode ns = map b64_char (b64_sextets ns) @ b64_padding ns"
  by (induction ns rule: b64_sextets.induct) (simp_all add: b64_padding_def numeral_2_eq_2)

lemma length_b64_encode: "length (b64_encode ns) mod 4 = 0"
  by (induction ns rule: b64_encode.induct) auto

lemma those_b64_index:
  "list_all (\<lambda>n. n < 64) sx \<Longrightarrow> those (map b64_index (map b64_char sx)) = Some sx"
  by (induction sx) (simp_all add: b64_char_props)

lemma strip_padding_0:
  assumes "xs = [] \<or> last xs \<noteq> 0x3D"
  shows "strip_padding xs = xs"
proof (cases xs rule: rev_cases)
  case Nil
  then show ?thesis by (simp add: strip_padding_def)
next
  case (snoc ys y)
  with assms show ?thesis
    by (cases ys rule: rev_cases) (simp_all add: strip_padding_def)
qed

lemma strip_padding_1:
  assumes "xs = [] \<or> last xs \<noteq> 0x3D"
  shows "strip_padding (xs @ [0x3D]) = xs"
  using assms by (cases xs rule: rev_cases) (simp_all add: strip_padding_def)

lemma strip_padding_2: "strip_padding (xs @ [0x3D, 0x3D]) = xs"
  by (simp add: strip_padding_def)

lemma strip_b64_padding:
  assumes "xs = [] \<or> last xs \<noteq> 0x3D"
  shows "strip_padding (xs @ b64_padding ns) = xs"
proof -
  consider "b64_padding ns = []" | "b64_padding ns = [0x3D]" | "b64_padding ns = [0x3D, 0x3D]"
  proof -
    have "length ns mod 3 < 3"
      by simp
    then have "length ns mod 3 = 0 \<or> length ns mod 3 = 1 \<or> length ns mod 3 = 2"
      by linarith
    then have "b64_padding ns = [] \<or> b64_padding ns = [0x3D] \<or> b64_padding ns = [0x3D, 0x3D]"
    proof (elim disjE)
      assume "length ns mod 3 = 0"
      then show ?thesis by (simp add: b64_padding_def)
    next
      assume "length ns mod 3 = 1"
      then have "b64_padding ns = replicate 2 0x3D"
        by (simp add: b64_padding_def)
      then show ?thesis by (simp add: numeral_2_eq_2)
    next
      assume "length ns mod 3 = 2"
      then have "b64_padding ns = replicate 1 0x3D"
        by (simp add: b64_padding_def)
      then show ?thesis by simp
    qed
    then show ?thesis
      using that by blast
  qed
  then show ?thesis
  proof cases
    case 1
    with strip_padding_0 [OF assms] show ?thesis by simp
  next
    case 2
    with strip_padding_1 [OF assms] show ?thesis by simp
  next
    case 3
    with strip_padding_2 [of xs] show ?thesis by simp
  qed
qed

lemma b64_chars_last:
  assumes "list_all (\<lambda>n. n < 64) sx"
  shows "map b64_char sx = [] \<or> last (map b64_char sx) \<noteq> 0x3D"
proof (cases sx rule: rev_cases)
  case Nil
  then show ?thesis by simp
next
  case (snoc ys y)
  with assms have "y < 64" by simp
  with snoc show ?thesis by (simp add: b64_char_props)
qed

lemma b64_encode_no_ws:
  assumes "list_all (\<lambda>n. n < 256) ns"
  shows "filter (\<lambda>c. \<not> is_ascii_ws c) (b64_encode ns) = b64_encode ns"
proof -
  have "list_all (\<lambda>n. n < 64) (b64_sextets ns)"
    using assms by (rule b64_sextets_bound)
  then have "\<forall>c\<in>set (map b64_char (b64_sextets ns)). \<not> is_ascii_ws c"
    by (auto simp add: list_all_iff b64_char_props)
  moreover have "\<forall>c\<in>set (b64_padding ns). \<not> is_ascii_ws c"
    by (simp add: b64_padding_def is_ascii_ws_def)
  ultimately show ?thesis
    by (simp add: b64_encode_split)
qed

text \<open>Decoding what \<open>b64_encode\<close> wrote gives the bytes back.\<close>

lemma atob_b64_encode:
  assumes "list_all (\<lambda>n. n < 256) ns"
  shows "atob (b64_encode ns) = Inr (map of_nat ns)"
proof -
  let ?sx = "b64_sextets ns"
  have small: "list_all (\<lambda>n. n < 64) ?sx"
    using assms by (rule b64_sextets_bound)
  have "strip_padding (b64_encode ns) = map b64_char ?sx"
    using strip_b64_padding [OF b64_chars_last [OF small]] by (simp add: b64_encode_split)
  moreover have "length (map b64_char ?sx) mod 4 \<noteq> 1"
    using length_b64_sextets [of ns] by simp
  ultimately show ?thesis
    using b64_encode_no_ws [OF assms] length_b64_encode [of ns] those_b64_index [OF small]
      b64_decode_sextets [OF assms]
    by (simp add: atob_def)
qed

lemma b64_encode_no_comma:
  assumes "list_all (\<lambda>n. n < 256) ns"
  shows "0x2C \<notin> set (b64_encode ns)"
proof -
  have "list_all (\<lambda>n. n < 64) (b64_sextets ns)"
    using assms by (rule b64_sextets_bound)
  then have "\<forall>c\<in>set (map b64_char (b64_sextets ns)). c \<noteq> 0x2C"
    by (auto simp add: list_all_iff b64_char_props)
  then show ?thesis
    by (auto simp add: b64_encode_split b64_padding_def)
qed

text \<open>The same for the bytes of a buffer.\<close>

lemma unat_byte_less: "unat (b :: byte) < 256"
  using unsigned_less [of b, where ?'a = nat] by simp

lemma unat_ucast_byte: "unat (ucast (b :: byte) :: jschar) = unat b"
proof -
  have "unat (ucast b :: jschar) = take_bit LENGTH(16) (unat b)"
    by (rule unsigned_ucast_eq)
  also have "\<dots> = unat b"
    using unat_byte_less [of b] by (simp add: take_bit_nat_eq_self)
  finally show ?thesis .
qed

lemma ucast_of_nat_unat_byte: "ucast (of_nat (unat (b :: byte)) :: jschar) = b"
proof -
  have "unat (of_nat (unat b) :: jschar) = unat b"
    using unat_byte_less [of b] by (simp add: unat_of_nat del: of_nat_unat)
  moreover have "unat (ucast (of_nat (unat b) :: jschar) :: byte) =
      take_bit LENGTH(8) (unat (of_nat (unat b) :: jschar))"
    by (rule unsigned_ucast_eq)
  ultimately have "unat (ucast (of_nat (unat b) :: jschar) :: byte) = unat b"
    using unat_byte_less [of b] by (simp add: take_bit_nat_eq_self del: of_nat_unat)
  then show ?thesis
    by (simp only: word_unat_eq_iff)
qed

lemma bytes_small: "list_all (\<lambda>n. n < 256) (map unat (bytes :: byte list))"
  by (simp add: list_all_iff unat_byte_less)

lemma arrayBufferToBase64_eq:
  "arrayBufferToBase64 bytes = Inr (b64_encode (map unat bytes))"
proof -
  have "(ucast (b :: byte) :: jschar) \<le> 0xFF" for b
    using unat_byte_less [of b] by (simp add: word_le_nat_alt unat_ucast_byte)
  then have "list_all (\<lambda>c. c \<le> 0xFF) (map ucast bytes :: jsstring)"
    by (simp add: list_all_iff)
  moreover have "map unat (map ucast bytes :: jsstring) = map unat bytes"
    by (simp add: unat_ucast_byte)
  ultimately show ?thesis
    by (simp only: arrayBufferToBase64_def btoa_def if_True)
qed

lemma atob_round_trip:
  "\<exists>binaryData. atob (b64_encode (map unat bytes)) = Inr binaryData \<and>
     map ucast binaryData = (bytes :: byte list)"
proof -
  have "map ucast (map of_nat (map unat bytes) :: jsstring) = bytes"
    by (simp add: comp_def ucast_of_nat_unat_byte del: of_nat_unat)
  with atob_b64_encode [OF bytes_small, of bytes] show ?thesis
    by blast
qed

section \<open>JSON round trip\<close>

lemma hex_val_lower: "map hex_val (js ''0123456789abcdef'') = map Some [0..<16]"
  by code_simp

lemma hex_val_hex_lower:
  assumes "n < 16"
  shows "hex_val (hex_lower n) = Some n"
proof -
  have "length (js ''0123456789abcdef'') = 16"
    by (simp add: js_def)
  with assms have "hex_val (hex_lower n) = map hex_val (js ''0123456789abcdef'') ! n"
    by (simp add: hex_lower_def)
  also have "\<dots> = Some n"
    using assms by (simp add: hex_val_lower)
  finally show ?thesis .
qed

lemma hex_digits_value:
  "x div 4096 * 4096 + x div 256 mod 16 * 256 + x div 16 mod 16 * 16 + x mod 16 = (x :: nat)"
proof -
  have "x div 256 div 16 = x div 4096" and "x div 16 div 16 = x div 256"
    using div_mult2_eq [of x 256 16] div_mult2_eq [of x 16 16] by simp_all
  then have a: "x div 256 = x div 4096 * 16 + x div 256 mod 16"
    and b: "x div 16 = x div 256 * 16 + x div 16 mod 16"
    using div_mult_mod_eq [of "x div 256" 16] div_mult_mod_eq [of "x div 16" 16] by simp_all
  have c: "x = x div 16 * 16 + x mod 16"
    by simp
  show ?thesis
    using a b c by linarith
qed

lemma unat_jschar_less: "unat (c :: jschar) < 65536"
  using unsigned_less [of c, where ?'a = nat] by simp

lemma parse_chars_unicode_escape:
  "parse_chars (unicode_escape c @ rest) =
     (case parse_chars rest of None \<Rightarrow> None | Some (t, r) \<Rightarrow> Some (c # t, r))"
proof -
  have d1: "hex_val (hex_lower (unat c div 4096)) = Some (unat c div 4096)"
    using unat_jschar_less [of c] by (intro hex_val_hex_lower) simp
  have d2: "hex_val (hex_lower (unat c div 256 mod 16)) = Some (unat c div 256 mod 16)"
    by (intro hex_val_hex_lower) simp
  have d3: "hex_val (hex_lower (unat c div 16 mod 16)) = Some (unat c div 16 mod 16)"
    by (intro hex_val_hex_lower) simp
  have d4: "hex_val (hex_lower (unat c mod 16)) = Some (unat c mod 16)"
    by (intro hex_val_hex_lower) simp
  have "(of_nat (unat c div 4096 * 4096 + unat c div 256 mod 16 * 256 +
      unat c div 16 mod 16 * 16 + unat c mod 16) :: jschar) = c"
    by (simp only: hex_digits_value) simp
  then show ?thesis
    by (simp add: unicode_escape_def d1 d2 d3 d4 split: option.splits)
qed

lemma surrogate_is_plain:
  assumes "is_high_surrogate c \<or> is_low_surrogate c"
  shows "c \<noteq> 0x22" and "\<not> c < 0x20" and "c \<noteq> 0x5C"
  using assms
  by (auto simp add: is_high_surrogate_def is_low_surrogate_def word_le_nat_alt word_less_nat_alt)

lemma parse_chars_quote_one:
  "parse_chars (quote_one c @ rest) =
     (case parse_chars rest of None \<Rightarrow> None | Some (t, r) \<Rightarrow> Some (c # t, r))"
proof -
  consider (escape) "c < 0x20 \<or> is_high_surrogate c \<or> is_low_surrogate c"
      "c \<notin> {0x08, 0x09, 0x0A, 0x0C, 0x0D, 0x22, 0x5C}"
    | (short) "c \<in> {0x08, 0x09, 0x0A, 0x0C, 0x0D, 0x22, 0x5C}"
    | (plain) "\<not> c < 0x20" "\<not> is_high_surrogate c" "\<not> is_low_surrogate c"
      "c \<notin> {0x08, 0x09, 0x0A, 0x0C, 0x0D, 0x22, 0x5C}"
    by blast
  then show ?thesis
  proof cases
    case escape
    then have "quote_one c = unicode_escape c"
      by (simp add: quote_one_def)
    then show ?thesis
      by (simp only: parse_chars_unicode_escape)
  next
    case short
    then show ?thesis
      by (auto simp add: quote_one_def split: option.splits)
  next
    case plain
    then show ?thesis
      by (simp add: quote_one_def split: option.splits)
  qed
qed

text \<open>Reading back what \<^verbatim>\<open>QuoteJSONString\<close> wrote gives the string.\<close>

lemma parse_chars_quote_chars:
  "parse_chars (quote_chars s @ 0x22 # rest) = Some (s, rest)"
proof (induction s rule: quote_chars.induct)
  case 1
  show ?case by simp
next
  case (2 c)
  show ?case
    by (simp add: parse_chars_quote_one)
next
  case (3 c d s)
  show ?case
  proof (cases "is_high_surrogate c \<and> is_low_surrogate d")
    case True
    have q: "quote_chars (c # d # s) = c # d # quote_chars s"
      using True by simp
    have ih: "parse_chars (quote_chars s @ 0x22 # rest) = Some (s, rest)"
      using 3(1) True by simp
    from True have "c \<noteq> 0x22" "\<not> c < 0x20" "c \<noteq> 0x5C" "d \<noteq> 0x22" "\<not> d < 0x20" "d \<noteq> 0x5C"
      using surrogate_is_plain [of c] surrogate_is_plain [of d] by simp_all
    then show ?thesis
      unfolding q by (simp add: ih)
  next
    case False
    have q: "quote_chars (c # d # s) = quote_one c @ quote_chars (d # s)"
      by (simp only: quote_chars.simps False if_False)
    have ih: "parse_chars (quote_chars (d # s) @ 0x22 # rest) = Some (d # s, rest)"
      using 3(2) False by simp
    show ?thesis
      unfolding q by (simp only: append_assoc parse_chars_quote_one ih) simp
  qed
qed

lemma skip_ws_plain: "\<not> is_ws c \<Longrightarrow> skip_ws (c # s) = c # s"
  by (simp add: skip_ws_def)

lemma QuoteJSONString_Cons: "QuoteJSONString v @ rest = 0x22 # quote_chars v @ 0x22 # rest"
  by (simp add: QuoteJSONString_def)

lemma parse_value_string: "parse_value (QuoteJSONString v @ rest) = Some (JStr v, rest)"
  by (subst parse_value.simps)
     (simp add: QuoteJSONString_Cons skip_ws_plain is_ws_def parse_chars_quote_chars)

lemma parse_members_last:
  "parse_members (QuoteJSONString k @ 0x3A # QuoteJSONString v @ 0x7D # rest) =
     Some ([(k, JStr v)], rest)"
proof -
  have "length (0x7D # rest) < length (QuoteJSONString v @ 0x7D # rest)"
    by (simp add: QuoteJSONString_def)
  then show ?thesis
    by (subst parse_members.simps)
       (simp add: QuoteJSONString_Cons [of k] skip_ws_plain is_ws_def parse_chars_quote_chars
         parse_value_string)
qed

lemma parse_members_more:
  assumes "parse_members rest = Some (ms, r)"
  shows "parse_members (QuoteJSONString k @ 0x3A # QuoteJSONString v @ 0x2C # rest) =
           Some ((k, JStr v) # ms, r)"
proof -
  have "length (0x2C # rest) < length (QuoteJSONString v @ 0x2C # rest)"
    by (simp add: QuoteJSONString_def)
  then show ?thesis
    using assms
    by (subst parse_members.simps)
       (simp add: QuoteJSONString_Cons [of k] skip_ws_plain is_ws_def parse_chars_quote_chars
         parse_value_string)
qed

lemma parse_value_object:
  assumes "parse_members (QuoteJSONString k @ rest) = Some (ms, r)"
  shows "parse_value (0x7B # QuoteJSONString k @ rest) = Some (JObj ms, r)"
  using assms
  by (subst parse_value.simps)
     (simp add: QuoteJSONString_Cons [of k] skip_ws_plain is_ws_def)

lemma JSON_stringify_three:
  "JSON_stringify [(k1, v1), (k2, v2), (k3, v3)] =
     0x7B # QuoteJSONString (js k1) @ 0x3A # QuoteJSONString v1 @
     0x2C # QuoteJSONString (js k2) @ 0x3A # QuoteJSONString v2 @
     0x2C # QuoteJSONString (js k3) @ 0x3A # QuoteJSONString v3 @ [0x7D]"
  by (simp add: JSON_stringify_def enumerate_eq_zip js_def upt_rec)

text \<open>Parsing the text \<^verbatim>\<open>JSON.stringify\<close> wrote for an object of three strings.\<close>

lemma JSON_parse_stringify:
  "JSON_parse (JSON_stringify [(k1, v1), (k2, v2), (k3, v3)]) =
     Inr (JObj [(js k1, JStr v1), (js k2, JStr v2), (js k3, JStr v3)])"
proof -
  have "parse_members (QuoteJSONString (js k1) @ 0x3A # QuoteJSONString v1 @
      0x2C # QuoteJSONString (js k2) @ 0x3A # QuoteJSONString v2 @
      0x2C # QuoteJSONString (js k3) @ 0x3A # QuoteJSONString v3 @ 0x7D # []) =
      Some ([(js k1, JStr v1), (js k2, JStr v2), (js k3, JStr v3)], [])"
    by (intro parse_members_more parse_members_last)
  then have "parse_value (JSON_stringify [(k1, v1), (k2, v2), (k3, v3)]) =
      Some (JObj [(js k1, JStr v1), (js k2, JStr v2), (js k3, JStr v3)], [])"
    unfolding JSON_stringify_three by (rule parse_value_object)
  then show ?thesis
    by (simp add: JSON_parse_def skip_ws_def)
qed

section \<open>Uploading a file and reading it back\<close>

lemma unreserved_not_surrogate:
  assumes "is_unreserved c"
  shows "\<not> is_high_surrogate c" and "\<not> is_low_surrogate c"
  using assms
  by (auto simp add: is_unreserved_def is_upper_def is_lower_def is_digit_def
      is_high_surrogate_def is_low_surrogate_def word_le_nat_alt)

lemma encode_uri_well_formed: "well_formed s \<Longrightarrow> \<exists>t. encode_uri s = Some t"
proof (induction s rule: well_formed.induct)
  case 1
  show ?case by simp
next
  case (2 c)
  then show ?case by simp
next
  case (3 c d s)
  show ?case
  proof (cases "is_high_surrogate c")
    case True
    with 3 obtain t where "encode_uri s = Some t"
      by auto
    with True "3.prems" unreserved_not_surrogate(1) [of c] show ?thesis
      by auto
  next
    case False
    with 3 obtain t where "encode_uri (d # s) = Some t"
      by auto
    with False "3.prems" show ?thesis
      by (cases "is_unreserved c") simp_all
  qed
qed

lemma encodeURIComponent_well_formed:
  "well_formed s \<Longrightarrow> \<exists>t. encodeURIComponent s = Inr t"
  using encode_uri_well_formed [of s] by (auto simp add: encodeURIComponent_def)

subsection \<open>URI round trip\<close>

lemma hex_val_upper: "map hex_val (js ''0123456789ABCDEF'') = map Some [0..<16]"
  by code_simp

lemma hex_val_hex_upper:
  assumes "n < 16"
  shows "hex_val (hex_upper n) = Some n"
proof -
  have "length (js ''0123456789ABCDEF'') = 16"
    by (simp add: js_def)
  with assms have "hex_val (hex_upper n) = map hex_val (js ''0123456789ABCDEF'') ! n"
    by (simp add: hex_upper_def)
  also have "\<dots> = Some n"
    using assms by (simp add: hex_val_upper)
  finally show ?thesis .
qed

lemma hex_byte_upper:
  assumes "b < 256"
  shows "hex_byte (hex_upper (b div 16)) (hex_upper (b mod 16)) = Some b"
proof -
  have "b div 16 < 16"
    using assms by simp
  then show ?thesis
    by (simp add: hex_byte_def hex_val_hex_upper)
qed

lemma percent_Cons:
  "percent (b # bs) @ r = 0x25 # hex_upper (b div 16) # hex_upper (b mod 16) # percent bs @ r"
  by (simp add: percent_def)

lemma percent_Nil: "percent [] = []"
  by (simp add: percent_def)

lemma length_percent: "length (percent bs) = 3 * length bs"
  by (induction bs) (simp_all add: percent_def)

lemma escapes_percent:
  "list_all (\<lambda>b. b < 256) bs \<Longrightarrow> escapes (length bs) (percent bs @ r) = Some bs"
  by (induction bs) (simp_all add: percent_Nil percent_Cons hex_byte_upper)

lemma drop_percent: "drop (3 * length bs) (percent bs @ r) = r"
  by (simp add: length_percent)

lemma mod_64_byte: "(x :: nat) mod 64 < 128"
  using mod_less_divisor [of 64 x] by linarith

lemma div_bounds:
  fixes cp :: nat
  shows "cp < 0x800 \<Longrightarrow> cp div 64 < 32"
    and "cp < 0x10000 \<Longrightarrow> cp div 4096 < 16"
    and "cp < 0x110000 \<Longrightarrow> cp div 262144 < 5"
  using less_mult_imp_div_less [of cp 32 64] less_mult_imp_div_less [of cp 16 4096]
    less_mult_imp_div_less [of cp 5 262144]
  by simp_all

lemma decode_percent_ascii:
  assumes "cp < 0x80"
  shows "decode_uri (percent (utf8_encode cp) @ r) =
           map_option ((@) (utf16_encode cp)) (decode_uri r)"
proof -
  have "hex_byte (hex_upper (cp div 16)) (hex_upper (cp mod 16)) = Some cp"
    using assms by (intro hex_byte_upper) simp
  with assms show ?thesis
    by (cases "decode_uri r")
       (simp_all add: utf8_encode_def percent_def leading_ones_def utf16_encode_def)
qed

lemma decode_percent_multi:
  assumes bytes: "utf8_encode cp = b # bs" and small: "list_all (\<lambda>b. b < 256) (b # bs)"
    and lead: "leading_ones b = Suc (length bs)" and more: "bs \<noteq> []" "length bs \<le> 3"
    and decoded: "utf8_decode (b # bs) = Some cp"
  shows "decode_uri (percent (utf8_encode cp) @ r) =
           map_option ((@) (utf16_encode cp)) (decode_uri r)"
proof -
  have h: "hex_byte (hex_upper (b div 16)) (hex_upper (b mod 16)) = Some b"
    using small by (intro hex_byte_upper) simp
  have e: "escapes (length bs) (percent bs @ r) = Some bs"
    using small by (intro escapes_percent) simp
  have n: "\<not> 3 < length bs"
    using more by simp
  show ?thesis
    unfolding bytes percent_Cons
    by (subst decode_uri.simps) (simp add: h lead e decoded drop_percent n more Let_def del: drop_append)
qed

lemma decode_percent:
  assumes "cp < 0x110000" and "\<not> (0xD800 \<le> cp \<and> cp \<le> 0xDFFF)"
  shows "decode_uri (percent (utf8_encode cp) @ r) =
           map_option ((@) (utf16_encode cp)) (decode_uri r)"
proof -
  consider (one) "cp < 0x80" | (two) "0x80 \<le> cp" "cp < 0x800"
    | (three) "0x800 \<le> cp" "cp < 0x10000" | (four) "0x10000 \<le> cp"
    by linarith
  then show ?thesis
  proof cases
    case one
    then show ?thesis by (rule decode_percent_ascii)
  next
    case two
    let ?b = "0xC0 + cp div 64" and ?bs = "[0x80 + cp mod 64]"
    have "utf8_encode cp = ?b # ?bs"
      using two by (simp add: utf8_encode_def)
    moreover have "list_all (\<lambda>b. b < 256) (?b # ?bs)"
      using div_bounds(1) [of cp] two mod_64_byte [of cp] by simp
    moreover have "leading_ones ?b = Suc (length ?bs)"
      using div_bounds(1) [of cp] two by (simp add: leading_ones_def)
    moreover have "utf8_decode (?b # ?bs) = Some cp"
      using two by (simp add: utf8_decode_def is_continuation_def Let_def)
    ultimately show ?thesis
      by (intro decode_percent_multi) simp_all
  next
    case three
    let ?b = "0xE0 + cp div 4096" and ?bs = "[0x80 + cp div 64 mod 64, 0x80 + cp mod 64]"
    have recompose: "cp div 4096 * 4096 + cp div 64 mod 64 * 64 + cp mod 64 = cp"
    proof -
      have "cp div 64 div 64 = cp div 4096"
        using div_mult2_eq [of cp 64 64] by simp
      then have "cp div 64 = cp div 4096 * 64 + cp div 64 mod 64"
        using div_mult_mod_eq [of "cp div 64" 64] by simp
      moreover have "cp = cp div 64 * 64 + cp mod 64"
        by simp
      ultimately show ?thesis by linarith
    qed
    have "utf8_encode cp = ?b # ?bs"
      using three by (simp add: utf8_encode_def)
    moreover have "list_all (\<lambda>b. b < 256) (?b # ?bs)"
      using div_bounds(2) [of cp] three mod_64_byte [of cp] mod_64_byte [of "cp div 64"]
      by simp
    moreover have "leading_ones ?b = Suc (length ?bs)"
      using div_bounds(2) [of cp] three by (simp add: leading_ones_def)
    moreover have "utf8_decode (?b # ?bs) = Some cp"
      using three assms(2) by (simp add: utf8_decode_def is_continuation_def Let_def recompose)
    ultimately show ?thesis
      by (intro decode_percent_multi) simp_all
  next
    case four
    let ?b = "0xF0 + cp div 262144"
    let ?bs = "[0x80 + cp div 4096 mod 64, 0x80 + cp div 64 mod 64, 0x80 + cp mod 64]"
    have recompose: "cp div 262144 * 262144 + cp div 4096 mod 64 * 4096 + cp div 64 mod 64 * 64 +
        cp mod 64 = cp"
    proof -
      have "cp div 64 div 64 = cp div 4096" and "cp div 4096 div 64 = cp div 262144"
        using div_mult2_eq [of cp 64 64] div_mult2_eq [of cp 4096 64] by simp_all
      then have "cp div 64 = cp div 4096 * 64 + cp div 64 mod 64"
        and "cp div 4096 = cp div 262144 * 64 + cp div 4096 mod 64"
        using div_mult_mod_eq [of "cp div 64" 64] div_mult_mod_eq [of "cp div 4096" 64]
        by simp_all
      moreover have "cp = cp div 64 * 64 + cp mod 64"
        by simp
      ultimately show ?thesis by linarith
    qed
    have "utf8_encode cp = ?b # ?bs"
      using four by (simp add: utf8_encode_def)
    moreover have "list_all (\<lambda>b. b < 256) (?b # ?bs)"
      using div_bounds(3) [of cp] assms(1) mod_64_byte [of cp] mod_64_byte [of "cp div 64"]
        mod_64_byte [of "cp div 4096"]
      by simp
    moreover have "leading_ones ?b = Suc (length ?bs)"
      using div_bounds(3) [of cp] assms(1) by (simp add: leading_ones_def)
    moreover have "utf8_decode (?b # ?bs) = Some cp"
      using four assms(1) by (simp add: utf8_decode_def is_continuation_def Let_def recompose)
    ultimately show ?thesis
      by (intro decode_percent_multi) simp_all
  qed
qed

lemma unreserved_not_percent: "is_unreserved c \<Longrightarrow> c \<noteq> 0x25"
  by (auto simp add: is_unreserved_def is_upper_def is_lower_def is_digit_def)

lemma utf16_encode_unit: "utf16_encode (unat (c :: jschar)) = [c]"
  using unat_jschar_less [of c] by (simp add: utf16_encode_def)

lemma surrogate_values:
  assumes "is_high_surrogate c" and "is_low_surrogate d"
  shows "0xD800 \<le> unat c" and "unat c < 0xDC00" and "0xDC00 \<le> unat d" and "unat d < 0xE000"
  using assms
  by (simp_all add: is_high_surrogate_def is_low_surrogate_def word_le_nat_alt)

lemma pair_code_point_range:
  assumes "is_high_surrogate c" and "is_low_surrogate d"
  shows "0x10000 \<le> pair_code_point c d" and "pair_code_point c d < 0x110000"
  using surrogate_values [OF assms] by (simp_all add: pair_code_point_def)

lemma utf16_encode_pair:
  assumes "is_high_surrogate c" and "is_low_surrogate d"
  shows "utf16_encode (pair_code_point c d) = [c, d]"
proof -
  note v = surrogate_values [OF assms]
  define h where "h = unat c - 0xD800"
  define l where "l = unat d - 0xDC00"
  have hl: "h < 0x400" "l < 0x400" "unat c = 0xD800 + h" "unat d = 0xDC00 + l"
    using v by (simp_all add: h_def l_def)
  have cp: "pair_code_point c d = 0x10000 + (h * 0x400 + l)"
    by (simp add: pair_code_point_def h_def l_def)
  have "(h * 0x400 + l) div 0x400 = h" and "(h * 0x400 + l) mod 0x400 = l"
    using hl(2) by simp_all
  then have "utf16_encode (pair_code_point c d) = [of_nat (unat c), of_nat (unat d)]"
    unfolding cp utf16_encode_def by (simp add: hl(3,4) del: of_nat_unat)
  then show ?thesis
    by simp
qed

lemma uri_step_plain:
  assumes "\<not> is_high_surrogate c" and "\<not> is_low_surrogate c"
    and "encode_uri rest = Some t" and "decode_uri t = Some rest"
  shows "\<exists>t'. encode_uri (c # rest) = Some t' \<and> decode_uri t' = Some (c # rest)"
proof (cases "is_unreserved c")
  case True
  with assms(3,4) unreserved_not_percent [OF True] show ?thesis
    by simp
next
  case False
  have "unat c < 0x110000"
    using unat_jschar_less [of c] by simp
  moreover have "\<not> (0xD800 \<le> unat c \<and> unat c \<le> 0xDFFF)"
    using assms(1,2)
    by (auto simp add: is_high_surrogate_def is_low_surrogate_def word_le_nat_alt)
  ultimately have "decode_uri (percent (utf8_encode (unat c)) @ t) =
      map_option ((@) (utf16_encode (unat c))) (decode_uri t)"
    by (rule decode_percent)
  with False assms show ?thesis
    by (simp add: utf16_encode_unit)
qed

lemma uri_step_pair:
  assumes "is_high_surrogate c" and "is_low_surrogate d"
    and "encode_uri rest = Some t" and "decode_uri t = Some rest"
  shows "\<exists>t'. encode_uri (c # d # rest) = Some t' \<and> decode_uri t' = Some (c # d # rest)"
proof -
  have "\<not> is_unreserved c"
    using assms(1) unreserved_not_surrogate(1) [of c] by blast
  moreover have "decode_uri (percent (utf8_encode (pair_code_point c d)) @ t) =
      map_option ((@) (utf16_encode (pair_code_point c d))) (decode_uri t)"
    using pair_code_point_range [OF assms(1,2)] by (intro decode_percent) simp_all
  ultimately show ?thesis
    using assms by (simp add: utf16_encode_pair)
qed

text \<open>
  \<^verbatim>\<open>encodeURIComponent\<close> accepts every well-formed string, and
  \<^verbatim>\<open>decodeURIComponent\<close> gives the string back.
\<close>

lemma decode_encode_uri:
  "well_formed s \<Longrightarrow> \<exists>t. encode_uri s = Some t \<and> decode_uri t = Some s"
proof (induction s rule: well_formed.induct)
  case 1
  show ?case by simp
next
  case (2 c)
  then show ?case
    using uri_step_plain [of c "[]" "[]"] by simp
next
  case (3 c d s)
  show ?case
  proof (cases "is_high_surrogate c")
    case True
    with 3 obtain t where "encode_uri s = Some t" "decode_uri t = Some s"
      by auto
    with True "3.prems" show ?thesis
      using uri_step_pair [of c d s t] by simp
  next
    case False
    with 3 obtain t where "encode_uri (d # s) = Some t" "decode_uri t = Some (d # s)"
      by auto
    with False "3.prems" show ?thesis
      using uri_step_plain [of c "d # s" t] by simp
  qed
qed

lemma decodeURIComponent_encodeURIComponent:
  assumes "well_formed s"
  shows "\<exists>t. encodeURIComponent s = Inr t \<and> decodeURIComponent t = Inr s"
  using decode_encode_uri [OF assms]
  by (auto simp add: encodeURIComponent_def decodeURIComponent_def)

subsection \<open>The stored record\<close>

lemma separator_has_comma:
  assumes "take 7 xs = js ''base64,''"
  shows "0x2C \<in> set xs"
proof -
  have "0x2C \<in> set (take 7 xs)"
    unfolding assms by (simp add: js_def)
  then show ?thesis
    by (rule in_set_takeD)
qed

lemma split_from_no_comma:
  "0x2C \<notin> set s \<Longrightarrow> split_from (js ''base64,'') acc s = [rev acc @ s]"
proof (induction s arbitrary: acc)
  case Nil
  show ?case by simp
next
  case (Cons c s)
  have len: "length (js ''base64,'') = 7"
    by (simp add: js_def)
  have "take 7 (c # s) \<noteq> js ''base64,''"
    using separator_has_comma [of "c # s"] Cons.prems by blast
  with Cons len show ?case
    by simp
qed

lemma second_split_pdf:
  assumes "0x2C \<notin> set b"
  shows "second (split (js ''data:application/pdf;base64,'' @ b) (js ''base64,'')) = Some b"
proof -
  have sep: "js ''base64,'' = [0x62, 0x61, 0x73, 0x65, 0x36, 0x34, 0x2C]"
    by (simp add: js_def)
  have "split_from [0x62, 0x61, 0x73, 0x65, 0x36, 0x34, 0x2C] [] b = [b]"
    using split_from_no_comma [OF assms, of "[]"] by (simp add: sep)
  then show ?thesis
    by (simp add: split_def second_def js_def)
qed

lemma savePage_upload:
  assumes "form_file form = Some f" and "file_bytes f \<noteq> []"
  shows "savePage key form st =
           (redirect_response (js ''/'' @ key), KV_put key (FileRecord_text f) st)"
  using assms by (simp add: savePage_def arrayBufferToBase64_eq FileRecord_text_def)

lemma JSON_parse_FileRecord_text:
  "JSON_parse (FileRecord_text f) =
     Inr (JObj [(js ''fileName'', JStr (file_name f)),
                (js ''mimeType'', JStr (file_type f)),
                (js ''content'',
                 JStr (js ''data:'' @ file_type f @ js '';base64,'' @
                       b64_encode (map unat (file_bytes f))))])"
  unfolding FileRecord_text_def by (rule JSON_parse_stringify)

lemma FileRecord_props:
  "get_prop (JObj [(js ''fileName'', n), (js ''mimeType'', m), (js ''content'', c)])
     (js ''fileName'') = Some n"
  "get_prop (JObj [(js ''fileName'', n), (js ''mimeType'', m), (js ''content'', c)])
     (js ''mimeType'') = Some m"
  "get_prop (JObj [(js ''fileName'', n), (js ''mimeType'', m), (js ''content'', c)])
     (js ''content'') = Some c"
  by (simp_all add: js_def)

lemma FileRecord_truthy:
  assumes "n \<noteq> []"
  shows "truthy_opt (get_prop
           (JObj [(js ''fileName'', JStr n), (js ''mimeType'', m), (js ''content'', c)])
           (js ''fileName''))"
  using assms by (simp only: FileRecord_props) (simp add: truthy_opt_def)

lemma GET_page_uploaded_image:
  assumes "fst (KV_get key st) = Some (FileRecord_text f)" and "file_name f \<noteq> []"
    and "file_type f = js ''image/png''"
  shows "fst (GET_page P key st) =
           html_response
             (ImagePreviewPage
                (js ''data:image/png;base64,'' @ b64_encode (map unat (file_bytes f))))"
proof -
  have starts: "startsWith (js ''image/png'') (js ''image/'')"
    by code_simp
  have uri: "js ''data:'' @ js ''image/png'' @ js '';base64,'' @ b = js ''data:image/png;base64,'' @ b"
    for b
    by (simp add: js_def)
  have "truthy_opt (get_prop
      (JObj [(js ''fileName'', JStr (file_name f)),
             (js ''mimeType'', JStr (file_type f)),
             (js ''content'',
              JStr (js ''data:'' @ file_type f @ js '';base64,'' @
                    b64_encode (map unat (file_bytes f))))])
      (js ''fileName''))"
    using assms(2) by (rule FileRecord_truthy)
  from servePage_file [OF assms(1) JSON_parse_FileRecord_text this, of P]
  have "fst (servePage P key st) =
      Inr (html_response
        (ImagePreviewPage
           (js ''data:image/png;base64,'' @ b64_encode (map unat (file_bytes f)))))"
    by (simp only: FileRecord_props assms(3) starts uri option.case json.case if_True
        serveImagePreview_def ToString_opt_def ToString.simps sum.case)
  then show ?thesis
    by (rule GET_page_Inr)
qed

lemma GET_page_uploaded_pdf:
  assumes "fst (KV_get key st) = Some (FileRecord_text f)" and "file_name f \<noteq> []"
    and "file_type f = js ''application/pdf''" and "encodeURIComponent (file_name f) = Inr encoded"
  shows "fst (GET_page P key st) =
           download_response encoded (js ''application/pdf'') (file_bytes f)"
proof -
  let ?b64 = "b64_encode (map unat (file_bytes f))"
  have starts: "\<not> startsWith (js ''application/pdf'') (js ''image/'')"
    by code_simp
  have uri: "js ''data:'' @ js ''application/pdf'' @ js '';base64,'' @ b =
      js ''data:application/pdf;base64,'' @ b" for b
    by (simp add: js_def)
  have piece: "second (split (js ''data:application/pdf;base64,'' @ ?b64) (js ''base64,'')) =
      Some ?b64"
    by (rule second_split_pdf) (rule b64_encode_no_comma [OF bytes_small])
  have decoded: "atob ?b64 = Inr (map of_nat (map unat (file_bytes f)))"
    by (rule atob_b64_encode [OF bytes_small])
  have name: "ToString_opt P (Some (JStr (file_name f))) = Inr (file_name f)"
    by (simp add: ToString_opt_def)
  have bytes: "map ucast (map of_nat (map unat (file_bytes f)) :: jsstring) = file_bytes f"
    by (simp add: comp_def ucast_of_nat_unat_byte del: of_nat_unat)
  have "truthy_opt (get_prop
      (JObj [(js ''fileName'', JStr (file_name f)),
             (js ''mimeType'', JStr (file_type f)),
             (js ''content'',
              JStr (js ''data:'' @ file_type f @ js '';base64,'' @ ?b64))])
      (js ''fileName''))"
    using assms(2) by (rule FileRecord_truthy)
  from servePage_file [OF assms(1) JSON_parse_FileRecord_text this, of P]
  have "fst (servePage P key st) =
      serveFileDownload P (Some (JStr (file_name f))) (js ''application/pdf'')
        (Some (JStr (js ''data:application/pdf;base64,'' @ ?b64)))"
    by (simp only: FileRecord_props assms(3) starts uri option.case json.case if_False)
  also have "\<dots> = Inr (download_response encoded (js ''application/pdf'')
      (map ucast (map of_nat (map unat (file_bytes f)) :: jsstring)))"
    by (rule serveFileDownload_ok [OF piece decoded name assms(4)])
  finally show ?thesis
    unfolding bytes by (rule GET_page_Inr)
qed

lemma is_FileRecord_text: "is_FileRecord (FileRecord_text f) \<longleftrightarrow> file_name f \<noteq> []"
  by (simp only: is_FileRecord_iff JSON_parse_FileRecord_text sum.inject simp_thms ex_simps
      FileRecord_props)
     (simp add: truthy_opt_def)

text \<open>
  C5, as the claim states it, fails for two uploads. For a file of no bytes \<^verbatim>\<open>savePage\<close>
  stores the text of the form, \<^verbatim>\<open>hi\<close>, and no file record. For a file of three bytes
  with the empty name it stores the record, and \<^verbatim>\<open>GET\<close> returns the text of the
  record, not a download: the empty \<^verbatim>\<open>fileName\<close> is falsy.
\<close>

theorem upload_counterexample:
  "fst (KV_get (js ''doc'') (snd (savePage (js ''doc'') empty_upload_form empty_kv))) =
     Some (js ''hi'') \<and>
   \<not> is_FileRecord (js ''hi'') \<and>
   fst (KV_get (js ''doc'') (snd (savePage (js ''doc'') nameless_upload_form empty_kv))) =
     Some nameless_record_text \<and>
   fst (GET_page example_platform (js ''doc'')
          (snd (savePage (js ''doc'') nameless_upload_form empty_kv))) =
     html_response (Text nameless_record_text) \<and>
   \<not> is_file_view (html_response (Text nameless_record_text))"
  by code_simp

text \<open>
  C5, amended. For every uploaded file that is not empty, \<^verbatim>\<open>savePage\<close> stores a JSON
  file record whose \<^verbatim>\<open>content\<close> is \<^verbatim>\<open>data:\<close>, the type, \<^verbatim>\<open>;base64,\<close> and the base64
  encoding of the bytes, which \<^verbatim>\<open>atob\<close> decodes to the bytes. The record is served as
  a file exactly when the name of the file is not empty. Then, for the type
  \<^verbatim>\<open>image/png\<close>, \<^verbatim>\<open>GET\<close> returns the image page with that data URI; and for the type
  \<^verbatim>\<open>application/pdf\<close> and a name without an unpaired surrogate, \<^verbatim>\<open>GET\<close> returns the
  download whose header holds \<^verbatim>\<open>encodeURIComponent\<close> of the name, from which
  \<^verbatim>\<open>decodeURIComponent\<close> gives the name back, and whose payload is the bytes of the
  file.
\<close>

theorem upload_round_trip:
  assumes "form_file form = Some f" and "file_bytes f \<noteq> []"
  shows "fst (KV_get key (snd (savePage key form st))) = Some (FileRecord_text f) \<and>
         JSON_parse (FileRecord_text f) =
           Inr (JObj [(js ''fileName'', JStr (file_name f)),
                      (js ''mimeType'', JStr (file_type f)),
                      (js ''content'',
                       JStr (js ''data:'' @ file_type f @ js '';base64,'' @
                             b64_encode (map unat (file_bytes f))))]) \<and>
         (\<exists>binaryData.
            atob (b64_encode (map unat (file_bytes f))) = Inr binaryData \<and>
            map ucast binaryData = file_bytes f) \<and>
         (is_FileRecord (FileRecord_text f) \<longleftrightarrow> file_name f \<noteq> []) \<and>
         (file_name f \<noteq> [] \<and> file_type f = js ''image/png'' \<longrightarrow>
            fst (GET_page P key (snd (savePage key form st))) =
              html_response
                (ImagePreviewPage
                   (js ''data:image/png;base64,'' @ b64_encode (map unat (file_bytes f))))) \<and>
         (file_name f \<noteq> [] \<and> well_formed (file_name f) \<and>
          file_type f = js ''application/pdf'' \<longrightarrow>
            (\<exists>encoded.
               encodeURIComponent (file_name f) = Inr encoded \<and>
               decodeURIComponent encoded = Inr (file_name f) \<and>
               fst (GET_page P key (snd (savePage key form st))) =
                 download_response encoded (js ''application/pdf'') (file_bytes f)))"
proof -
  have stored: "fst (KV_get key (snd (savePage key form st))) = Some (FileRecord_text f)"
    by (simp add: savePage_upload [OF assms] KV_get_put)
  have image: "fst (GET_page P key (snd (savePage key form st))) =
      html_response
        (ImagePreviewPage (js ''data:image/png;base64,'' @ b64_encode (map unat (file_bytes f))))"
    if "file_name f \<noteq> [] \<and> file_type f = js ''image/png''"
    using that by (intro GET_page_uploaded_image [OF stored]) simp_all
  have download: "\<exists>encoded.
      encodeURIComponent (file_name f) = Inr encoded \<and>
      decodeURIComponent encoded = Inr (file_name f) \<and>
      fst (GET_page P key (snd (savePage key form st))) =
        download_response encoded (js ''application/pdf'') (file_bytes f)"
    if a: "file_name f \<noteq> [] \<and> well_formed (file_name f) \<and> file_type f = js ''application/pdf''"
  proof -
    from a obtain encoded where e: "encodeURIComponent (file_name f) = Inr encoded"
      and d: "decodeURIComponent encoded = Inr (file_name f)"
      using decodeURIComponent_encodeURIComponent by blast
    from a have n: "file_name f \<noteq> []" and t: "file_type f = js ''application/pdf''"
      by simp_all
    from e d GET_page_uploaded_pdf [OF stored n t e, of P] show ?thesis
      by blast
  qed
  show ?thesis
  proof (intro conjI impI)
    show "fst (KV_get key (snd (savePage key form st))) = Some (FileRecord_text f)"
      by (rule stored)
    show "JSON_parse (FileRecord_text f) =
        Inr (JObj [(js ''fileName'', JStr (file_name f)),
                   (js ''mimeType'', JStr (file_type f)),
                   (js ''content'',
                    JStr (js ''data:'' @ file_type f @ js '';base64,'' @
                          b64_encode (map unat (file_bytes f))))])"
      by (rule JSON_parse_FileRecord_text)
    show "\<exists>binaryData.
        atob (b64_encode (map unat (file_bytes f))) = Inr binaryData \<and>
        map ucast binaryData = file_bytes f"
      by (rule atob_round_trip)
    show "is_FileRecord (FileRecord_text f) \<longleftrightarrow> file_name f \<noteq> []"
      by (rule is_FileRecord_text)
  qed (use image download in blast)+
qed

theorem upload_round_trip_witness:
  "form_file png_upload_form =
     Some \<lparr>file_name = js ''p.png'', file_type = js ''image/png'', file_bytes = [1, 2, 3]\<rparr> \<and>
   fst (KV_get (js ''pic'') (snd (savePage (js ''pic'') png_upload_form empty_kv))) =
     Some png_record_text \<and>
   atob (js ''AQID'') = Inr [1, 2, 3] \<and>
   fst (GET_page example_platform (js ''pic'')
          (snd (savePage (js ''pic'') png_upload_form empty_kv))) =
     html_response (ImagePreviewPage (js ''data:image/png;base64,AQID'')) \<and>
   fst (KV_get (js ''doc'') (snd (savePage (js ''doc'') pdf_upload_form empty_kv))) =
     Some pdf_record_text \<and>
   fst (GET_page example_platform (js ''doc'')
          (snd (savePage (js ''doc'') pdf_upload_form empty_kv))) =
     download_response (js ''my%20file.pdf'') (js ''application/pdf'') [1, 2, 3]"
proof -
  define png where "png =
    \<lparr>file_name = js ''p.png'', file_type = js ''image/png'', file_bytes = [1, 2, 3 :: byte]\<rparr>"
  define pdf where "pdf =
    \<lparr>file_name = js ''my file.pdf'', file_type = js ''application/pdf'',
     file_bytes = [1, 2, 3 :: byte]\<rparr>"
  have i1: "form_file png_upload_form = Some png"
    by (simp add: png_upload_form_def png_def)
  have i2: "file_bytes png \<noteq> []"
    by (simp add: png_def)
  have i3: "file_name png \<noteq> [] \<and> file_type png = js ''image/png''"
    by (simp add: png_def js_def)
  have i4: "FileRecord_text png = png_record_text"
    unfolding png_def by code_simp
  have i5: "b64_encode (map unat (file_bytes png)) = js ''AQID''"
    unfolding png_def by code_simp
  have i6: "js ''data:image/png;base64,'' @ js ''AQID'' = js ''data:image/png;base64,AQID''"
    by (simp add: js_def)
  have d1: "form_file pdf_upload_form = Some pdf"
    by (simp add: pdf_upload_form_def pdf_def)
  have d2: "file_bytes pdf \<noteq> []"
    by (simp add: pdf_def)
  have d3: "file_name pdf \<noteq> [] \<and> well_formed (file_name pdf) \<and>
      file_type pdf = js ''application/pdf''"
    unfolding pdf_def by code_simp
  have d4: "FileRecord_text pdf = pdf_record_text"
    unfolding pdf_def by code_simp
  have d5: "encodeURIComponent (file_name pdf) = Inr (js ''my%20file.pdf'')"
    unfolding pdf_def by code_simp
  have d6: "file_bytes pdf = [1, 2, 3]"
    by (simp add: pdf_def)
  have a: "atob (js ''AQID'') = Inr [1, 2, 3]"
    by code_simp
  note png_facts = upload_round_trip [OF i1 i2, of "js ''pic''" empty_kv example_platform]
  note pdf_facts = upload_round_trip [OF d1 d2, of "js ''doc''" empty_kv example_platform]
  have "fst (GET_page example_platform (js ''pic'')
      (snd (savePage (js ''pic'') png_upload_form empty_kv))) =
      html_response (ImagePreviewPage (js ''data:image/png;base64,AQID''))"
    using png_facts i3 by (simp add: i5 i6)
  moreover have "fst (GET_page example_platform (js ''doc'')
      (snd (savePage (js ''doc'') pdf_upload_form empty_kv))) =
      download_response (js ''my%20file.pdf'') (js ''application/pdf'') [1, 2, 3]"
    using pdf_facts d3 by (auto simp add: d5 d6)
  moreover have "fst (KV_get (js ''pic'') (snd (savePage (js ''pic'') png_upload_form empty_kv))) =
      Some png_record_text"
    using png_facts by (simp add: i4)
  moreover have "fst (KV_get (js ''doc'') (snd (savePage (js ''doc'') pdf_upload_form empty_kv))) =
      Some pdf_record_text"
    using pdf_facts by (simp add: d4)
  ultimately show ?thesis
    using i1 a by (simp add: png_def)
qed

end
